theory Spec2Isabelle
  imports Main "HOL-Library.Word" "HOL-Library.Monad_Syntax"
begin

unbundle bit_operations_syntax

section \<open>The automaton model of simplehoa.h\<close>

text \<open>
  The C structures of \<^verbatim>\<open>simplehoa.h\<close>. A singly linked list (a \<^verbatim>\<open>next\<close> pointer, NULL for
  the empty list) is a HOL list of its nodes. A pointer that the program tests against NULL
  is an \<open>option\<close>; a \<^verbatim>\<open>char*\<close> that it hands to \<^verbatim>\<open>strcmp\<close> or \<^verbatim>\<open>printf\<close> untested is a
  \<open>string\<close>. The field \<open>f\<close> of a structure is written with the structure's prefix
  (\<open>bt_\<close> for BTree, \<open>al_\<close> for AliasList, \<open>tr_\<close> for TransList, \<open>st_\<close> for StateList,
  \<open>hoa_\<close> for HoaData), since several structures share field names.
  C's \<^verbatim>\<open>int\<close> is modelled by the mathematical integers: the model agrees with the program
  as long as no \<^verbatim>\<open>int\<close> computation leaves the range of the type, and every general statement
  below about a number that the program computes has that range among its hypotheses
  (\<open>cInt\<close>). The \<^verbatim>\<open>unsigned\<close> valuation and mask of the label evaluator are 32-bit words,
  whose shift wraps around as in C.
\<close>

datatype NodeType =
  NT_BOOL | NT_AND | NT_OR | NT_FIN | NT_INF | NT_NOT | NT_SET | NT_AP | NT_ALIAS

datatype BTree =
  BTree (bt_left: "BTree option") (bt_right: "BTree option") (bt_alias: string)
        (bt_id: int) (bt_type: NodeType)

record AliasNode =
  al_alias :: string
  al_labelExpr :: "BTree option"

record TransNode =
  tr_label :: "BTree option"
  tr_successors :: "int list"
  tr_accSig :: "int list"

record StateNode =
  st_id :: int
  st_name :: "string option"
  st_label :: "BTree option"
  st_accSig :: "int list"
  st_transitions :: "TransNode list"

record HoaData =
  hoa_noStates :: int
  hoa_aps :: "string list"
  hoa_accNameParameters :: "string list"
  hoa_properties :: "string list"
  hoa_states :: "StateNode list"
  hoa_aliases :: "AliasNode list"
  hoa_start :: "int list"
  hoa_cntAPs :: "int list"
  hoa_noAccSets :: int
  hoa_noAPs :: int
  hoa_acc :: "BTree option"
  hoa_version :: string
  hoa_accNameID :: string
  hoa_toolName :: string
  hoa_toolVersion :: string
  hoa_name :: string

section \<open>The label evaluator\<close>

text \<open>
  The result of one call of \<^verbatim>\<open>evalLabel\<close>: the \<^verbatim>\<open>int\<close> it returns, or a failed
  \<^verbatim>\<open>assert\<close> (the program is built with assertions on, so a failed one aborts it).
\<close>

datatype eval_res = Val int | AssertFail

text \<open>
  The \<^verbatim>\<open>NT_AP\<close> loop: the array \<^verbatim>\<open>apIds\<close> with its length \<^verbatim>\<open>numAPs\<close> is a list, walked
  from index 0 with the mask shifted left once per index.
\<close>

fun apScan :: "int \<Rightarrow> int list \<Rightarrow> 32 word \<Rightarrow> 32 word \<Rightarrow> int" where
  "apScan i [] val msk = 0"
| "apScan i (a # as) val msk =
     (if i = a then (if (msk AND val) = msk then 1 else - 1)
      else apScan i as val (push_bit 1 msk))"

text \<open>
  The \<^verbatim>\<open>NT_ALIAS\<close> loop: the first node of the alias list whose name compares equal.
\<close>

fun findAlias :: "AliasNode list \<Rightarrow> string \<Rightarrow> AliasNode option" where
  "findAlias [] n = None"
| "findAlias (a # as) n = (if al_alias a = n then Some a else findAlias as n)"

text \<open>
  \<^verbatim>\<open>evalLabel\<close> recurses into the expression bound to an alias, so on a cyclic alias table
  it does not return: \<open>None\<close> is that outcome. An alias bound by no entry leaves the loop
  and the \<^verbatim>\<open>switch\<close> by \<^verbatim>\<open>break\<close> and returns \<open>-2\<close>.
\<close>

partial_function (option) evalLabel ::
  "BTree option \<Rightarrow> AliasNode list \<Rightarrow> int list \<Rightarrow> 32 word \<Rightarrow> eval_res option" where
  "evalLabel label als apIds val =
     (case label of
        None \<Rightarrow> Some AssertFail
      | Some t \<Rightarrow>
         (case bt_type t of
            NT_BOOL \<Rightarrow> Some (Val (if bt_id t \<noteq> 0 then 1 else - 1))
          | NT_AND \<Rightarrow>
              Option.bind (evalLabel (bt_left t) als apIds val) (\<lambda>l.
                case l of
                  AssertFail \<Rightarrow> Some AssertFail
                | Val left \<Rightarrow>
                    Option.bind (evalLabel (bt_right t) als apIds val) (\<lambda>r.
                      case r of
                        AssertFail \<Rightarrow> Some AssertFail
                      | Val right \<Rightarrow>
                          Some (Val (if left = - 1 \<or> right = - 1 then - 1
                                     else if left = 0 \<or> right = 0 then 0
                                     else 1))))
          | NT_OR \<Rightarrow>
              Option.bind (evalLabel (bt_left t) als apIds val) (\<lambda>l.
                case l of
                  AssertFail \<Rightarrow> Some AssertFail
                | Val left \<Rightarrow>
                    Option.bind (evalLabel (bt_right t) als apIds val) (\<lambda>r.
                      case r of
                        AssertFail \<Rightarrow> Some AssertFail
                      | Val right \<Rightarrow>
                          Some (Val (if left = 1 \<or> right = 1 then 1
                                     else if left = 0 \<or> right = 0 then 0
                                     else - 1))))
          | NT_NOT \<Rightarrow>
              Option.bind (evalLabel (bt_left t) als apIds val) (\<lambda>l.
                case l of
                  AssertFail \<Rightarrow> Some AssertFail
                | Val left \<Rightarrow> Some (Val (- 1 * left)))
          | NT_AP \<Rightarrow> Some (Val (apScan (bt_id t) apIds val 1))
          | NT_ALIAS \<Rightarrow>
              (case findAlias als (bt_alias t) of
                 Some a \<Rightarrow> evalLabel (al_labelExpr a) als apIds val
               | None \<Rightarrow> Some (Val (- 2)))
          | NT_FIN \<Rightarrow> Some AssertFail
          | NT_INF \<Rightarrow> Some AssertFail
          | NT_SET \<Rightarrow> Some AssertFail))"

declare evalLabel.simps [code]

section \<open>The priority normalizer\<close>

text \<open>
  \<^verbatim>\<open>adjustPriority\<close>. The test \<^verbatim>\<open>evenMax % 2 != 0\<close> is the same for C's truncating
  remainder and for \<open>mod\<close>: both are 0 exactly on the even numbers. The sums and the
  difference are those of C where they stay within \<^verbatim>\<open>int\<close>; beyond it the C computation
  overflows and the model does not follow it.
\<close>

definition adjustPriority :: "int \<Rightarrow> bool \<Rightarrow> int \<Rightarrow> int \<Rightarrow> int" where
  "adjustPriority p maxPriority winRes noPriorities =
     (let evenMax = (if noPriorities mod 2 \<noteq> 0 then noPriorities + 1 else noPriorities);
          pForMax = (if maxPriority then p else evenMax - p);
          shifted = pForMax + (2 - winRes)
      in shifted)"

section \<open>The game-graph constructor\<close>

text \<open>
  What the program writes to standard output, line by line: the header \<^verbatim>\<open>parity N;\<close> and the
  vertex lines \<^verbatim>\<open>id priority owner successors "label"\<close>. A vertex line also records which
  of the three places of \<^verbatim>\<open>main\<close> printed it: the line of a compatible transition, of a
  valuation, or of a state. The diagnostics on standard error are not modelled.
\<close>

datatype site = Compat | Valuation | Decision

datatype pgline =
  Header int
| Vertex (v_site: site) (v_id: int) (v_prio: int) (v_owner: int) (v_succs: "int list")
         (v_label: string)

text \<open>
  How a run of \<^verbatim>\<open>main\<close> ends: it returns an exit code, or a failed \<^verbatim>\<open>assert\<close> aborts it.
\<close>

datatype outcome = Exit int | Abort

text \<open>
  The result of a loop of \<^verbatim>\<open>main\<close>: \<open>None\<close> when a call of \<^verbatim>\<open>evalLabel\<close> does not return,
  \<open>Inl\<close> with the lines printed so far when the run stops inside the loop, \<open>Inr\<close> with the
  loop's variables when it runs to its end.
\<close>

type_synonym 'a step = "((pgline list \<times> outcome) + 'a) option"

text \<open>The conversion \<^verbatim>\<open>%d\<close> of \<^verbatim>\<open>printf\<close>: decimal digits, with a minus sign below 0.\<close>

function showNat :: "nat \<Rightarrow> string" where
  "showNat n =
     (if n < 10 then [''0123456789'' ! n]
      else showNat (n div 10) @ [''0123456789'' ! (n mod 10)])"
  by pat_completeness auto
termination
  by (relation "measure (\<lambda>n. n)") auto

declare showNat.simps [simp del]

definition showInt :: "int \<Rightarrow> string" where
  "showInt i = (if i < 0 then CHR ''-'' # showNat (nat (- i)) else showNat (nat i))"

text \<open>
  Modelled from the spec: \<^verbatim>\<open>prependIntNode\<close> is declared in \<^verbatim>\<open>simplehoa.h\<close> and its body is not
  among the sources. By its name and the spec's note on list building ("adding to the front
  of a collection") it returns the list with the new integer as its first node.
\<close>

definition prependIntNode :: "int list \<Rightarrow> int \<Rightarrow> int list" where
  "prependIntNode xs x = x # xs"

text \<open>
  The loop over the acceptance-name parameters. Its four variables are \<^verbatim>\<open>foundOrd\<close>,
  \<^verbatim>\<open>maxPriority\<close>, \<^verbatim>\<open>foundRes\<close> and \<^verbatim>\<open>winRes\<close>, in this order.
\<close>

fun accNameParamsLoop ::
  "string list \<Rightarrow> bool \<times> bool \<times> bool \<times> int \<Rightarrow> bool \<times> bool \<times> bool \<times> int" where
  "accNameParamsLoop [] vars = vars"
| "accNameParamsLoop (str # rest) (foundOrd, maxPriority, foundRes, winRes) =
     (let (maxPriority, foundOrd) =
            (if str = ''max'' then (True, True) else (maxPriority, foundOrd));
          (maxPriority, foundOrd) =
            (if str = ''min'' then (False, True) else (maxPriority, foundOrd));
          (winRes, foundRes) =
            (if str = ''even'' then (0, True) else (winRes, foundRes));
          (winRes, foundRes) =
            (if str = ''odd'' then (1, True) else (winRes, foundRes))
      in accNameParamsLoop rest (foundOrd, maxPriority, foundRes, winRes))"

text \<open>
  The loop over the properties; its variables are \<^verbatim>\<open>det\<close>, \<^verbatim>\<open>complete\<close> and \<^verbatim>\<open>colored\<close>.
\<close>

fun propertiesLoop :: "string list \<Rightarrow> bool \<times> bool \<times> bool \<Rightarrow> bool \<times> bool \<times> bool" where
  "propertiesLoop [] vars = vars"
| "propertiesLoop (str # rest) (det, complete, colored) =
     (let det = (if str = ''deterministic'' then True else det);
          complete = (if str = ''complete'' then True else complete);
          colored = (if str = ''colored'' then True else colored)
      in propertiesLoop rest (det, complete, colored))"

text \<open>
  The innermost loop of step 2, over the transitions of \<open>state\<close> for the valuation \<open>val\<close>.
  Its variables are \<^verbatim>\<open>nextIndex\<close>, \<^verbatim>\<open>validVals\<close> and the lines printed so far.
\<close>

fun transLoop ::
  "HoaData \<Rightarrow> bool \<Rightarrow> int \<Rightarrow> int list \<Rightarrow> StateNode \<Rightarrow> int \<Rightarrow> TransNode list \<Rightarrow>
   int \<Rightarrow> int list \<Rightarrow> pgline list \<Rightarrow> (int \<times> int list \<times> pgline list) step" where
  "transLoop data maxPriority winRes ucntAPs state val [] nextIndex validVals out =
     Some (Inr (nextIndex, validVals, out))"
| "transLoop data maxPriority winRes ucntAPs state val (tnode # rest) nextIndex validVals out =
     (case tr_successors tnode of
        [succ] \<Rightarrow>
          (case (if st_label state \<noteq> None then st_label state else tr_label tnode) of
             None \<Rightarrow> Some (Inl (out, Abort))
           | Some label \<Rightarrow>
               (case (if st_accSig state = [] then tr_accSig tnode else st_accSig state) of
                  [acc_i] \<Rightarrow>
                    (let priority = adjustPriority acc_i maxPriority winRes (hoa_noAccSets data)
                     in case evalLabel (Some label) (hoa_aliases data) ucntAPs (word_of_int val) of
                          None \<Rightarrow> None
                        | Some AssertFail \<Rightarrow> Some (Inl (out, Abort))
                        | Some (Val evald) \<Rightarrow>
                            if evald \<noteq> - 1 then
                              (let fullVal = nextIndex
                               in transLoop data maxPriority winRes ucntAPs state val rest
                                    (nextIndex + 1) (prependIntNode validVals fullVal)
                                    (out @ [Vertex Compat fullVal priority 0 [succ]
                                              (showInt fullVal)]))
                            else transLoop data maxPriority winRes ucntAPs state val rest
                                   nextIndex validVals out)
                | _ \<Rightarrow> Some (Inl (out, Abort))))
      | _ \<Rightarrow> Some (Inl (out, Abort)))"

text \<open>
  The body of the loop over the valuations, for the valuation \<open>val\<close>: the transitions are
  walked with an empty \<^verbatim>\<open>validVals\<close>, which must not be empty afterwards, and the line of
  the valuation lists \<^verbatim>\<open>validVals\<close> from its first node on.
\<close>

definition valStep ::
  "HoaData \<Rightarrow> bool \<Rightarrow> int \<Rightarrow> int list \<Rightarrow> StateNode \<Rightarrow> int \<Rightarrow> int \<Rightarrow>
   int \<Rightarrow> pgline list \<Rightarrow> (int \<times> pgline list) step" where
  "valStep data maxPriority winRes ucntAPs state firstSucc val nextIndex out =
     (let partVal = firstSucc + val
      in case transLoop data maxPriority winRes ucntAPs state val (st_transitions state)
                nextIndex [] out of
           None \<Rightarrow> None
         | Some (Inl stop) \<Rightarrow> Some (Inl stop)
         | Some (Inr (nextIndex', validVals, out')) \<Rightarrow>
             (case validVals of
                [] \<Rightarrow> Some (Inl (out', Abort))
              | _ \<Rightarrow>
                  Some (Inr (nextIndex',
                    out' @ [Vertex Valuation partVal 0 0 validVals (showInt partVal)]))))"

fun valLoop ::
  "HoaData \<Rightarrow> bool \<Rightarrow> int \<Rightarrow> int list \<Rightarrow> StateNode \<Rightarrow> int \<Rightarrow> int list \<Rightarrow>
   int \<Rightarrow> pgline list \<Rightarrow> (int \<times> pgline list) step" where
  "valLoop data maxPriority winRes ucntAPs state firstSucc [] nextIndex out =
     Some (Inr (nextIndex, out))"
| "valLoop data maxPriority winRes ucntAPs state firstSucc (val # vals) nextIndex out =
     (case valStep data maxPriority winRes ucntAPs state firstSucc val nextIndex out of
        None \<Rightarrow> None
      | Some (Inl stop) \<Rightarrow> Some (Inl stop)
      | Some (Inr (nextIndex', out')) \<Rightarrow>
          valLoop data maxPriority winRes ucntAPs state firstSucc vals nextIndex' out')"

text \<open>
  The body of the loop over the states: \<^verbatim>\<open>numValuations\<close> indices are set aside from
  \<^verbatim>\<open>firstSucc\<close> on, the valuations \<open>0\<close> to \<^verbatim>\<open>numValuations - 1\<close> are processed, and the line of
  the state is printed in pieces: \<^verbatim>\<open>firstSucc\<close> first, then every \<^verbatim>\<open>succ\<close> from \<^verbatim>\<open>firstSucc\<close>
  up to \<^verbatim>\<open>firstSucc + numValuations - 1\<close>.
\<close>

definition stateStep ::
  "HoaData \<Rightarrow> bool \<Rightarrow> int \<Rightarrow> int list \<Rightarrow> int \<Rightarrow> StateNode \<Rightarrow>
   int \<Rightarrow> pgline list \<Rightarrow> (int \<times> pgline list) step" where
  "stateStep data maxPriority winRes ucntAPs numValuations state nextIndex out =
     (let firstSucc = nextIndex
      in case valLoop data maxPriority winRes ucntAPs state firstSucc [0..numValuations - 1]
                (nextIndex + numValuations) out of
           None \<Rightarrow> None
         | Some (Inl stop) \<Rightarrow> Some (Inl stop)
         | Some (Inr (nextIndex', out')) \<Rightarrow>
             Some (Inr (nextIndex',
               out' @ [Vertex Decision (st_id state) 0 1
                         (firstSucc # [firstSucc..firstSucc + numValuations - 1])
                         (case st_name state of
                            Some name \<Rightarrow> name
                          | None \<Rightarrow> showInt (st_id state))])))"

fun stateLoop ::
  "HoaData \<Rightarrow> bool \<Rightarrow> int \<Rightarrow> int list \<Rightarrow> int \<Rightarrow> StateNode list \<Rightarrow>
   int \<Rightarrow> pgline list \<Rightarrow> (int \<times> pgline list) step" where
  "stateLoop data maxPriority winRes ucntAPs numValuations [] nextIndex out =
     Some (Inr (nextIndex, out))"
| "stateLoop data maxPriority winRes ucntAPs numValuations (state # rest) nextIndex out =
     (case stateStep data maxPriority winRes ucntAPs numValuations state nextIndex out of
        None \<Rightarrow> None
      | Some (Inl stop) \<Rightarrow> Some (Inl stop)
      | Some (Inr (nextIndex', out')) \<Rightarrow>
          stateLoop data maxPriority winRes ucntAPs numValuations rest nextIndex' out')"

text \<open>
  Steps 1 and 2 of \<^verbatim>\<open>main\<close>, which follow the semantic checks. The array \<^verbatim>\<open>ucntAPs\<close> holds
  the indices below \<^verbatim>\<open>noAPs\<close> that are not in \<^verbatim>\<open>cntAPs\<close>, in increasing order (the inner
  loop that searches \<^verbatim>\<open>cntAPs\<close> is the membership test). When their number is not
  \<^verbatim>\<open>numUcntAPs\<close>, because \<^verbatim>\<open>cntAPs\<close> repeats an index or holds one outside the range, the C
  program has already written past the array when \<^verbatim>\<open>assert(apIdx == numUcntAPs)\<close> fails; the
  model takes the failed assertion. \<^verbatim>\<open>1 << numUcntAPs\<close> is the power of two, which is what C
  computes for up to 30 uncontrollable propositions; with more of them, or with a
  \<^verbatim>\<open>nextIndex\<close> or a header number beyond \<^verbatim>\<open>int\<close>, the C computation overflows and the model
  does not follow it. The header is printed before the loop over the states.
  \<^verbatim>\<open>EXIT_SUCCESS\<close> is 0.
\<close>

definition constructGame :: "HoaData \<Rightarrow> bool \<Rightarrow> int \<Rightarrow> (pgline list \<times> outcome) option" where
  "constructGame data maxPriority winRes =
     (let numUcntAPs = hoa_noAPs data - int (length (hoa_cntAPs data));
          ucntAPs = filter (\<lambda>i. i \<notin> set (hoa_cntAPs data)) [0..hoa_noAPs data - 1]
      in if int (length ucntAPs) \<noteq> numUcntAPs then Some ([], Abort)
         else
           (let numValuations = 2 ^ nat numUcntAPs;
                nextIndex = hoa_noStates data
            in case stateLoop data maxPriority winRes ucntAPs numValuations (hoa_states data)
                      nextIndex [Header (nextIndex * (numValuations + 1) - 1)] of
                 None \<Rightarrow> None
               | Some (Inl stop) \<Rightarrow> Some stop
               | Some (Inr (nextIndex', out)) \<Rightarrow> Some (out, Exit 0)))"

text \<open>
  \<^verbatim>\<open>main\<close>, from the return value \<open>ret\<close> of the parser and the data it filled in. The two
  variables \<^verbatim>\<open>maxPriority\<close> and \<^verbatim>\<open>winRes\<close> are not initialised in C and are read only after
  the loop has set them; the model starts them at \<open>False\<close> and \<open>0\<close>.
\<close>

definition main :: "int \<Rightarrow> HoaData \<Rightarrow> (pgline list \<times> outcome) option" where
  "main ret data =
     (if ret \<noteq> 0 then Some ([], Exit ret)
      else if hoa_accNameID data \<noteq> ''parity'' then Some ([], Exit 100)
      else
        (case accNameParamsLoop (hoa_accNameParameters data) (False, False, False, 0) of
           (foundOrd, maxPriority, foundRes, winRes) \<Rightarrow>
             if \<not> foundOrd then Some ([], Exit 101)
             else if \<not> foundRes then Some ([], Exit 102)
             else
               (case propertiesLoop (hoa_properties data) (False, False, False) of
                  (det, complete, colored) \<Rightarrow>
                    if \<not> det then Some ([], Exit 200)
                    else if \<not> complete then Some ([], Exit 201)
                    else if \<not> colored then Some ([], Exit 202)
                    else if hoa_start data = [] \<or> tl (hoa_start data) \<noteq> []
                    then Some ([], Exit 300)
                    else constructGame data maxPriority winRes)))"

section \<open>Notions of the specification\<close>

text \<open>
  The negation rule of the ternary evaluation, in the specification's words: it "flips
  definitely-true and definitely-false; undetermined maps to itself". Definitely-true is
  \<open>1\<close>, definitely-false is \<open>-1\<close> and undetermined is \<open>0\<close>.
\<close>

definition flip :: "int \<Rightarrow> int" where
  "flip x = (if x = 1 then - 1 else if x = - 1 then 1 else x)"

fun mapVal :: "(int \<Rightarrow> int) \<Rightarrow> eval_res \<Rightarrow> eval_res" where
  "mapVal g (Val x) = Val (g x)"
| "mapVal g AssertFail = AssertFail"

text \<open>
  A tree built only of the label node kinds: constants, conjunctions and disjunctions with
  both children, negations with their left child, references to atomic propositions, and
  references to aliases whose name some entry of the table binds.
\<close>

fun labelKinds :: "AliasNode list \<Rightarrow> BTree \<Rightarrow> bool" where
  "labelKinds als (BTree l r a i ty) =
     (case ty of
        NT_BOOL \<Rightarrow> True
      | NT_AND \<Rightarrow> (case l of None \<Rightarrow> False | Some x \<Rightarrow> labelKinds als x) \<and>
                  (case r of None \<Rightarrow> False | Some y \<Rightarrow> labelKinds als y)
      | NT_OR \<Rightarrow> (case l of None \<Rightarrow> False | Some x \<Rightarrow> labelKinds als x) \<and>
                 (case r of None \<Rightarrow> False | Some y \<Rightarrow> labelKinds als y)
      | NT_NOT \<Rightarrow> (case l of None \<Rightarrow> False | Some x \<Rightarrow> labelKinds als x)
      | NT_AP \<Rightarrow> True
      | NT_ALIAS \<Rightarrow> a \<in> set (map al_alias als)
      | NT_FIN \<Rightarrow> False
      | NT_INF \<Rightarrow> False
      | NT_SET \<Rightarrow> False)"

text \<open>Every entry of the alias table is bound to such a tree.\<close>

definition aliasesClosed :: "AliasNode list \<Rightarrow> bool" where
  "aliasesClosed als =
     list_all (\<lambda>a. case al_labelExpr a of None \<Rightarrow> False | Some t \<Rightarrow> labelKinds als t) als"

text \<open>
  A label whose evaluation is finite: as above, and every alias reference resolves, at the
  first entry of its name, to an expression that is again such a label. Being inductive, the
  predicate holds only where the chain of alias references ends.
\<close>

inductive wfLabel :: "AliasNode list \<Rightarrow> BTree option \<Rightarrow> bool" for als where
  wf_bool: "bt_type t = NT_BOOL \<Longrightarrow> wfLabel als (Some t)"
| wf_and: "bt_type t = NT_AND \<Longrightarrow> wfLabel als (bt_left t) \<Longrightarrow> wfLabel als (bt_right t)
           \<Longrightarrow> wfLabel als (Some t)"
| wf_or: "bt_type t = NT_OR \<Longrightarrow> wfLabel als (bt_left t) \<Longrightarrow> wfLabel als (bt_right t)
           \<Longrightarrow> wfLabel als (Some t)"
| wf_not: "bt_type t = NT_NOT \<Longrightarrow> wfLabel als (bt_left t) \<Longrightarrow> wfLabel als (Some t)"
| wf_ap: "bt_type t = NT_AP \<Longrightarrow> wfLabel als (Some t)"
| wf_alias: "bt_type t = NT_ALIAS \<Longrightarrow> k < length als \<Longrightarrow> al_alias (als ! k) = bt_alias t
           \<Longrightarrow> (\<forall>j<k. al_alias (als ! j) \<noteq> bt_alias t)
           \<Longrightarrow> wfLabel als (al_labelExpr (als ! k)) \<Longrightarrow> wfLabel als (Some t)"

text \<open>
  The values of C's \<^verbatim>\<open>int\<close> (32 bits). The model computes on the mathematical integers and
  agrees with the program on a computation all of whose results are such values; the
  statements about numbers that the program computes say so in their hypotheses.
\<close>

definition cInt :: "int \<Rightarrow> bool" where
  "cInt x = (- 2147483648 \<le> x \<and> x \<le> 2147483647)"

text \<open>
  The validation checks an automaton fails, by exit code, in the order of the program text.
\<close>

definition failedChecks :: "HoaData \<Rightarrow> int list" where
  "failedChecks data =
     map fst (filter snd
       [(100, hoa_accNameID data \<noteq> ''parity''),
        (101, ''max'' \<notin> set (hoa_accNameParameters data) \<and>
              ''min'' \<notin> set (hoa_accNameParameters data)),
        (102, ''even'' \<notin> set (hoa_accNameParameters data) \<and>
              ''odd'' \<notin> set (hoa_accNameParameters data)),
        (200, ''deterministic'' \<notin> set (hoa_properties data)),
        (201, ''complete'' \<notin> set (hoa_properties data)),
        (202, ''colored'' \<notin> set (hoa_properties data)),
        (300, length (hoa_start data) \<noteq> 1)])"

text \<open>The identifiers of the vertex lines printed at one place, in the order of the output.\<close>

fun printedAt :: "site \<Rightarrow> pgline \<Rightarrow> bool" where
  "printedAt k (Header n) = False"
| "printedAt k (Vertex s i p ow succs lbl) = (s = k)"

definition idsAt :: "site \<Rightarrow> pgline list \<Rightarrow> int list" where
  "idsAt k out = map v_id (filter (printedAt k) out)"

text \<open>
  The effective label and acceptance signature of a transition: those of the state if it
  has them, else the transition's own. A transition is compatible with a valuation when its
  effective label, evaluated over the uncontrollable propositions, is anything other than
  definitely false. \<open>compatLine\<close> is the line of the vertex with identifier \<open>i\<close> for a
  compatible transition: its normalized priority, owner 0, the transition's successors and
  the identifier as label.
\<close>

definition effLabel :: "StateNode \<Rightarrow> TransNode \<Rightarrow> BTree option" where
  "effLabel state tnode = (case st_label state of Some l \<Rightarrow> Some l | None \<Rightarrow> tr_label tnode)"

definition effAccSig :: "StateNode \<Rightarrow> TransNode \<Rightarrow> int list" where
  "effAccSig state tnode = (case st_accSig state of [] \<Rightarrow> tr_accSig tnode | _ \<Rightarrow> st_accSig state)"

definition compatible :: "HoaData \<Rightarrow> int list \<Rightarrow> StateNode \<Rightarrow> int \<Rightarrow> TransNode \<Rightarrow> bool" where
  "compatible data ucntAPs state val tnode =
     (evalLabel (effLabel state tnode) (hoa_aliases data) ucntAPs (word_of_int val)
        \<noteq> Some (Val (- 1)))"

definition compatLine ::
  "HoaData \<Rightarrow> bool \<Rightarrow> int \<Rightarrow> StateNode \<Rightarrow> int \<Rightarrow> TransNode \<Rightarrow> pgline" where
  "compatLine data maxPriority winRes state i tnode =
     Vertex Compat i
       (adjustPriority (hd (effAccSig state tnode)) maxPriority winRes (hoa_noAccSets data))
       0 (tr_successors tnode) (showInt i)"

text \<open>The identifiers of all vertex lines of an output, in its order.\<close>

fun isVertex :: "pgline \<Rightarrow> bool" where
  "isVertex (Header n) = False"
| "isVertex (Vertex s i p ow succs lbl) = True"

definition vertexIds :: "pgline list \<Rightarrow> int list" where
  "vertexIds out = map v_id (filter isVertex out)"

text \<open>
  The identifiers of the valuation and compatible-transition vertices in the order in which
  the program allocates them: state by state (the line of a state ends its block), and for
  one state first the block of its valuation vertices, in the order of the valuations, then
  the vertices of its compatible transitions, valuation by valuation and transition by
  transition. The two lists passed along hold the identifiers of the current state seen so
  far.
\<close>

fun allocationOrder :: "pgline list \<Rightarrow> int list \<Rightarrow> int list \<Rightarrow> int list" where
  "allocationOrder [] vs cs = vs @ cs"
| "allocationOrder (Header n # ls) vs cs = allocationOrder ls vs cs"
| "allocationOrder (Vertex Valuation i p ow succs lbl # ls) vs cs =
     allocationOrder ls (vs @ [i]) cs"
| "allocationOrder (Vertex Compat i p ow succs lbl # ls) vs cs =
     allocationOrder ls vs (cs @ [i])"
| "allocationOrder (Vertex Decision i p ow succs lbl # ls) vs cs =
     vs @ cs @ allocationOrder ls [] []"

section \<open>Example automata\<close>

definition trueNode :: BTree where
  "trueNode = BTree None None [] 1 NT_BOOL"

definition falseNode :: BTree where
  "falseNode = BTree None None [] 0 NT_BOOL"

definition ap0Node :: BTree where
  "ap0Node = BTree None None [] 0 NT_AP"

definition notAp0Node :: BTree where
  "notAp0Node = BTree (Some ap0Node) None [] 0 NT_NOT"

definition aliasNode :: "string \<Rightarrow> BTree" where
  "aliasNode n = BTree None None n 0 NT_ALIAS"

text \<open>
  One state, one uncontrollable proposition, one self-loop labelled true with acceptance
  set 0; parity max even, deterministic, complete, colored.
\<close>

definition exLoop :: HoaData where
  "exLoop =
     \<lparr>hoa_noStates = 1, hoa_aps = [''a''], hoa_accNameParameters = [''max'', ''even''],
      hoa_properties = [''deterministic'', ''complete'', ''colored''],
      hoa_states =
        [\<lparr>st_id = 0, st_name = None, st_label = None, st_accSig = [],
          st_transitions =
            [\<lparr>tr_label = Some trueNode, tr_successors = [0], tr_accSig = [0]\<rparr>]\<rparr>],
      hoa_aliases = [], hoa_start = [0], hoa_cntAPs = [], hoa_noAccSets = 1, hoa_noAPs = 1,
      hoa_acc = None, hoa_version = ''v1'', hoa_accNameID = ''parity'', hoa_toolName = [],
      hoa_toolVersion = [], hoa_name = []\<rparr>"

text \<open>
  One state named \<open>q\<close>, one controllable proposition, two self-loops labelled \<open>0\<close> and
  \<open>!0\<close>: both are compatible with the only valuation of the (no) uncontrollable ones.
\<close>

definition exChoiceState :: StateNode where
  "exChoiceState =
     \<lparr>st_id = 0, st_name = Some ''q'', st_label = None, st_accSig = [],
      st_transitions =
        [\<lparr>tr_label = Some ap0Node, tr_successors = [0], tr_accSig = [0]\<rparr>,
         \<lparr>tr_label = Some notAp0Node, tr_successors = [0], tr_accSig = [1]\<rparr>]\<rparr>"

definition exChoice :: HoaData where
  "exChoice =
     exLoop\<lparr>hoa_states := [exChoiceState], hoa_cntAPs := [0], hoa_noAccSets := 2\<rparr>"

text \<open>The lines the program prints for these two automata.\<close>

definition exLoopOut :: "pgline list" where
  "exLoopOut =
     [Header 2, Vertex Compat 3 2 0 [0] ''3'', Vertex Valuation 1 0 0 [3] ''1'',
      Vertex Compat 4 2 0 [0] ''4'', Vertex Valuation 2 0 0 [4] ''2'',
      Vertex Decision 0 0 1 [1, 1, 2] ''0'']"

definition exChoiceOut :: "pgline list" where
  "exChoiceOut =
     [Header 1, Vertex Compat 2 2 0 [0] ''2'', Vertex Compat 3 3 0 [0] ''3'',
      Vertex Valuation 1 0 0 [3, 2] ''1'', Vertex Decision 0 0 1 [1, 1] ''q'']"

text \<open>The first example with both \<open>max\<close> and \<open>min\<close> among the acceptance-name parameters.\<close>

definition exMaxMin :: HoaData where
  "exMaxMin = exLoop\<lparr>hoa_accNameParameters := [''max'', ''min'', ''even'']\<rparr>"

text \<open>The first example with \<open>max\<close> as its only acceptance-name parameter.\<close>

definition exOnlyMax :: HoaData where
  "exOnlyMax = exLoop\<lparr>hoa_accNameParameters := [''max'']\<rparr>"

text \<open>A Rabin automaton with two start states.\<close>

definition exRabin :: HoaData where
  "exRabin = exLoop\<lparr>hoa_accNameID := ''Rabin'', hoa_start := [0, 1]\<rparr>"

text \<open>An alias table that binds \<open>a\<close> to a reference to \<open>a\<close> itself.\<close>

definition cyclicAliases :: "AliasNode list" where
  "cyclicAliases = [\<lparr>al_alias = ''a'', al_labelExpr = Some (aliasNode ''a'')\<rparr>]"

text \<open>An alias table that binds \<open>a\<close> twice, and \<open>b\<close> to a reference to \<open>a\<close>.\<close>

definition exAliases :: "AliasNode list" where
  "exAliases =
     [\<lparr>al_alias = ''b'', al_labelExpr = Some (aliasNode ''a'')\<rparr>,
      \<lparr>al_alias = ''a'', al_labelExpr = Some notAp0Node\<rparr>,
      \<lparr>al_alias = ''a'', al_labelExpr = Some trueNode\<rparr>]"

text \<open>An alias table that binds \<open>a\<close> to a reference to \<open>c\<close>, which no entry binds.\<close>

definition danglingAliases :: "AliasNode list" where
  "danglingAliases = [\<lparr>al_alias = ''a'', al_labelExpr = Some (aliasNode ''c'')\<rparr>]"

text \<open>
  An alias table that binds \<open>a\<close> to the negation of proposition 0, and \<open>z\<close> to a reference to
  \<open>c\<close>, which no entry binds.
\<close>

definition junkAliases :: "AliasNode list" where
  "junkAliases =
     [\<lparr>al_alias = ''a'', al_labelExpr = Some notAp0Node\<rparr>,
      \<lparr>al_alias = ''z'', al_labelExpr = Some (aliasNode ''c'')\<rparr>]"

text \<open>The first example with its transition labelled by a reference to an unbound alias.\<close>

definition exUnbound :: HoaData where
  "exUnbound =
     exLoop\<lparr>hoa_states :=
       [\<lparr>st_id = 0, st_name = None, st_label = None, st_accSig = [],
         st_transitions =
           [\<lparr>tr_label = Some (aliasNode ''x''), tr_successors = [0], tr_accSig = [0]\<rparr>]\<rparr>]\<rparr>"

section \<open>The priority normalizer: bounds\<close>

text \<open>
  Claim C2 as stated fails: with the odd winning parity the shift is \<open>2 - 1 = 1\<close>, and under
  the max convention the raw priority 0 is mapped to 1, which is below 2.
\<close>

theorem adjustPriority_below_two:
  "(0::int) \<le> 0 \<and> (0::int) < 4 \<and> adjustPriority 0 True 1 4 = 1
   \<and> \<not> 2 \<le> adjustPriority 0 True 1 4"
  by (simp add: adjustPriority_def)

text \<open>
  With at most \<open>2147483644\<close> priorities, no step of \<^verbatim>\<open>adjustPriority\<close> on a raw priority below
  \<open>noPriorities\<close> leaves the range of \<^verbatim>\<open>int\<close>: neither \<^verbatim>\<open>evenMax\<close>, nor \<^verbatim>\<open>pForMax\<close>, nor the
  shift, nor the result. On these arguments the model computes what the C function does.
\<close>

lemma adjustPriority_steps_cInt:
  assumes "0 \<le> p" and "p < noPriorities" and "noPriorities \<le> 2147483644"
    and "winRes = 0 \<or> winRes = 1"
  shows "cInt (noPriorities + 1)
    \<and> cInt ((if noPriorities mod 2 \<noteq> 0 then noPriorities + 1 else noPriorities) - p)
    \<and> cInt (2 - winRes)
    \<and> cInt (adjustPriority p maxPriority winRes noPriorities)"
  using assms by (auto simp: cInt_def adjustPriority_def Let_def)

text \<open>
  Claim C2, amended: for every raw priority \<open>p\<close> with \<open>0 \<le> p < noPriorities\<close>, at most
  \<open>2147483644\<close> priorities (so that no \<^verbatim>\<open>int\<close> computation of the normalizer overflows), both
  values of \<open>maxPriority\<close> and both winning parities (\<open>winRes\<close> 0 for even, 1 for odd), the
  output of the normalizer is a value of \<^verbatim>\<open>int\<close> and at least \<open>2 - winRes\<close>, so at least 1 and
  never the reserved 0; it is at least 2 when even wins and when the objective is min. For
  four priorities, max and even, 0 is mapped to 2 and 3 to 5; for min the mapping reverses
  the order, for any two raw priorities below \<open>noPriorities\<close> and for 0 and 3 in particular.
\<close>

theorem adjustPriority_bounds:
  assumes "0 \<le> p" and "p < noPriorities" and "noPriorities \<le> 2147483644"
    and "winRes = 0 \<or> winRes = 1"
  shows "cInt (adjustPriority p maxPriority winRes noPriorities)
    \<and> 2 - winRes \<le> adjustPriority p maxPriority winRes noPriorities
    \<and> 1 \<le> adjustPriority p maxPriority winRes noPriorities
    \<and> (winRes = 0 \<longrightarrow> 2 \<le> adjustPriority p maxPriority winRes noPriorities)
    \<and> (\<not> maxPriority \<longrightarrow> 2 \<le> adjustPriority p maxPriority winRes noPriorities)
    \<and> adjustPriority 0 True 0 4 = 2
    \<and> adjustPriority 3 True 0 4 = 5
    \<and> adjustPriority 3 False 0 4 < adjustPriority 0 False 0 4
    \<and> (\<forall>q. p < q \<and> q < noPriorities \<longrightarrow>
          adjustPriority q False winRes noPriorities < adjustPriority p False winRes noPriorities)"
proof -
  have shift: "1 \<le> 2 - winRes"
    using assms(4) by auto
  have flipped: "1 \<le> (if noPriorities mod 2 \<noteq> 0 then noPriorities + 1 else noPriorities) - p"
    using assms(2) by auto
  have range: "cInt (adjustPriority p maxPriority winRes noPriorities)"
    using adjustPriority_steps_cInt [OF assms] by blast
  show ?thesis
    using assms(1) shift flipped range by (auto simp: adjustPriority_def Let_def)
qed

theorem adjustPriority_bounds_witness:
  "(0::int) \<le> 0 \<and> (0::int) < 4 \<and> (4::int) \<le> 2147483644 \<and> ((1::int) = 0 \<or> (1::int) = 1)
   \<and> cInt (adjustPriority 0 True 1 4)
   \<and> 1 \<le> adjustPriority 0 True 1 4
   \<and> adjustPriority 3 False 1 4 < adjustPriority 0 False 1 4"
  using adjustPriority_bounds [of 0 4 1 True] by simp

section \<open>The label evaluator: aliases and three-valued logic\<close>

lemma apScan_range: "apScan i as v m \<in> {- 1, 0, 1}"
  by (induction as arbitrary: m) auto

lemma apScan_notin: "i \<notin> set as \<Longrightarrow> apScan i as v m = 0"
  by (induction as arbitrary: m) auto

lemma findAlias_Some:
  "n \<in> set (map al_alias als) \<Longrightarrow> \<exists>a. findAlias als n = Some a \<and> a \<in> set als"
  by (induction als) auto

lemma findAlias_None: "n \<notin> set (map al_alias als) \<Longrightarrow> findAlias als n = None"
  by (induction als) auto

lemma findAlias_first:
  "k < length als \<Longrightarrow> al_alias (als ! k) = n \<Longrightarrow> (\<forall>j<k. al_alias (als ! j) \<noteq> n)
     \<Longrightarrow> findAlias als n = Some (als ! k)"
proof (induction als arbitrary: k)
  case Nil
  then show ?case by simp
next
  case (Cons a as)
  show ?case
  proof (cases k)
    case 0
    with Cons.prems show ?thesis by simp
  next
    case (Suc k')
    from Cons.prems Suc have "al_alias a \<noteq> n" by auto
    moreover from Cons.prems Suc have "findAlias as n = Some (as ! k')"
      by (intro Cons.IH) auto
    ultimately show ?thesis using Suc by simp
  qed
qed

text \<open>
  Claim C5: an alias reference whose name no entry binds is a fatal condition, and the
  evaluation aborts on it. The program does not: for such a reference \<^verbatim>\<open>evalLabel\<close> leaves
  the alias loop and the \<^verbatim>\<open>switch\<close> by \<^verbatim>\<open>break\<close> and returns \<open>-2\<close>, a value outside the range
  \<open>1\<close>, \<open>-1\<close>, \<open>0\<close> that its own comment gives, where the neighbouring branch for a node kind
  that is no label fails an assertion. A conjunction above the reference turns \<open>-2\<close> into
  the ternary value 1, and \<^verbatim>\<open>main\<close>, which tests for \<open>-1\<close> only, takes \<open>-2\<close> for a compatible
  transition, prints its vertex and exits with 0.
\<close>

theorem evalLabel_unbound_alias_returns:
  "evalLabel (Some (aliasNode ''x'')) [] [] 0 = Some (Val (- 2))
   \<and> evalLabel (Some (aliasNode ''x'')) [] [] 0 \<noteq> Some AssertFail
   \<and> evalLabel (Some (BTree (Some (aliasNode ''x'')) (Some trueNode) [] 0 NT_AND)) [] [] 0
       = Some (Val 1)
   \<and> main 0 exUnbound =
       Some ([Header 2, Vertex Compat 3 2 0 [0] ''3'', Vertex Valuation 1 0 0 [3] ''1'',
              Vertex Compat 4 2 0 [0] ''4'', Vertex Valuation 2 0 0 [4] ''2'',
              Vertex Decision 0 0 1 [1, 1, 2] ''0''], Exit 0)"
  by code_simp

text \<open>
  The two paths of the \<^verbatim>\<open>NT_ALIAS\<close> branch, for every alias table: a reference whose name
  is bound is resolved to the first entry of that name, and its value is the value of that
  entry's expression, evaluated recursively; a reference whose name no entry binds
  evaluates to \<open>-2\<close>.
\<close>

lemma evalLabel_alias:
  assumes "bt_type n = NT_ALIAS"
  shows "(\<forall>k. k < length als \<and> al_alias (als ! k) = bt_alias n
              \<and> (\<forall>j<k. al_alias (als ! j) \<noteq> bt_alias n)
            \<longrightarrow> evalLabel (Some n) als apIds val =
                evalLabel (al_labelExpr (als ! k)) als apIds val)
       \<and> (bt_alias n \<notin> set (map al_alias als)
            \<longrightarrow> evalLabel (Some n) als apIds val = Some (Val (- 2)))"
proof (intro conjI allI impI)
  fix k
  assume k: "k < length als \<and> al_alias (als ! k) = bt_alias n
    \<and> (\<forall>j<k. al_alias (als ! j) \<noteq> bt_alias n)"
  then have "findAlias als (bt_alias n) = Some (als ! k)"
    by (intro findAlias_first) auto
  with assms show "evalLabel (Some n) als apIds val =
      evalLabel (al_labelExpr (als ! k)) als apIds val"
    by (subst evalLabel.simps) simp
next
  assume "bt_alias n \<notin> set (map al_alias als)"
  then have "findAlias als (bt_alias n) = None"
    by (rule findAlias_None)
  with assms show "evalLabel (Some n) als apIds val = Some (Val (- 2))"
    by (subst evalLabel.simps) simp
qed

lemma evalLabel_alias_example:
  "bt_type (aliasNode ''a'') = NT_ALIAS
   \<and> al_alias (exAliases ! 0) \<noteq> ''a'' \<and> al_alias (exAliases ! 1) = ''a''
   \<and> al_labelExpr (exAliases ! 1) = Some notAp0Node
   \<and> evalLabel (Some (aliasNode ''a'')) exAliases [0] 1 =
       evalLabel (Some notAp0Node) exAliases [0] 1
   \<and> evalLabel (Some (aliasNode ''a'')) exAliases [0] 1 = Some (Val (- 1))
   \<and> evalLabel (Some (aliasNode ''z'')) exAliases [0] 1 = Some (Val (- 2))"
proof -
  have ty: "bt_type (aliasNode n) = NT_ALIAS" for n
    by (simp add: aliasNode_def)
  note inst = evalLabel_alias [where als = exAliases and apIds = "[0]" and val = 1]
  have first: "evalLabel (Some (aliasNode ''a'')) exAliases [0] 1 =
      evalLabel (al_labelExpr (exAliases ! 1)) exAliases [0] 1"
    using inst [where n = "aliasNode ''a''", OF ty, THEN conjunct1, rule_format, of 1]
    by (simp add: exAliases_def aliasNode_def)
  have unbound: "evalLabel (Some (aliasNode ''z'')) exAliases [0] 1 = Some (Val (- 2))"
    using inst [where n = "aliasNode ''z''", OF ty, THEN conjunct2]
    by (simp add: exAliases_def aliasNode_def)
  have val: "evalLabel (Some notAp0Node) exAliases [0] 1 = Some (Val (- 1))"
    by code_simp
  show ?thesis
    using ty first unbound val by (simp add: exAliases_def)
qed

lemma evalLabel_bool:
  "bt_type c = NT_BOOL \<Longrightarrow>
   evalLabel (Some c) als apIds val = Some (Val (if bt_id c \<noteq> 0 then 1 else - 1))"
  by (subst evalLabel.simps) simp

text \<open>
  On a label whose alias references resolve down to alias-free labels, \<^verbatim>\<open>evalLabel\<close> returns
  one of the three ternary values. The proof is by induction on the resolution.
\<close>

lemma wfLabel_ternary:
  assumes "wfLabel als l"
  shows "evalLabel l als apIds val \<in> {Some (Val (- 1)), Some (Val 0), Some (Val 1)}"
  using assms
proof (induction rule: wfLabel.induct)
  case (wf_bool t)
  then show ?case
    by (subst evalLabel.simps) simp
next
  case (wf_and t)
  then show ?case
    by (subst evalLabel.simps) auto
next
  case (wf_or t)
  then show ?case
    by (subst evalLabel.simps) auto
next
  case (wf_not t)
  then show ?case
    by (subst evalLabel.simps) auto
next
  case (wf_ap t)
  then show ?case
    using apScan_range [of "bt_id t" apIds val 1] by (subst evalLabel.simps) simp
next
  case (wf_alias t k)
  from findAlias_first [OF wf_alias(2,3,4)] wf_alias(1,6) show ?case
    by (subst evalLabel.simps) simp
qed

text \<open>
  Claim C7 as stated fails. The tree \<open>e\<close> that is one reference to the alias \<open>a\<close> is built of
  the label kinds and its name resolves in the table that binds \<open>a\<close> to a reference to the
  unbound \<open>c\<close>. There \<open>e\<close> evaluates to \<open>-2\<close>, but its conjunction with the true constant
  evaluates to 1, its disjunction with the false constant to \<open>-1\<close>, and its negation to 2,
  which is no ternary value.
\<close>

theorem evalLabel_kleene_dangling:
  "labelKinds danglingAliases (aliasNode ''a'')
   \<and> evalLabel (Some (aliasNode ''a'')) danglingAliases [] 0 = Some (Val (- 2))
   \<and> evalLabel (Some (BTree (Some (aliasNode ''a'')) (Some trueNode) [] 0 NT_AND))
         danglingAliases [] 0 = Some (Val 1)
   \<and> evalLabel (Some (BTree (Some (aliasNode ''a'')) (Some falseNode) [] 0 NT_OR))
         danglingAliases [] 0 = Some (Val (- 1))
   \<and> evalLabel (Some (BTree (Some (aliasNode ''a'')) None [] 0 NT_NOT))
         danglingAliases [] 0 = Some (Val 2)"
proof -
  have "labelKinds danglingAliases (aliasNode ''a'')"
    by (simp add: aliasNode_def danglingAliases_def)
  moreover have "evalLabel (Some (aliasNode ''a'')) danglingAliases [] 0 = Some (Val (- 2))"
    by code_simp
  moreover have "evalLabel (Some (BTree (Some (aliasNode ''a'')) (Some trueNode) [] 0 NT_AND))
      danglingAliases [] 0 = Some (Val 1)"
    by code_simp
  moreover have "evalLabel (Some (BTree (Some (aliasNode ''a'')) (Some falseNode) [] 0 NT_OR))
      danglingAliases [] 0 = Some (Val (- 1))"
    by code_simp
  moreover have "evalLabel (Some (BTree (Some (aliasNode ''a'')) None [] 0 NT_NOT))
      danglingAliases [] 0 = Some (Val 2)"
    by code_simp
  ultimately show ?thesis
    by simp
qed

text \<open>
  Claim C7, amended: for every tree \<open>e\<close> built of the five label node kinds and alias
  references, where every alias reference resolves at the first entry of its name to such a
  tree again and the chain of references ends (\<open>wfLabel\<close>; entries of the table that \<open>e\<close>
  does not reach are free), any alias table, any list of relevant propositions and any
  valuation, the evaluation of \<open>e\<close> returns a ternary value \<open>x\<close>; the negation node above \<open>e\<close>
  evaluates to the flipped \<open>x\<close>, the conjunction of \<open>e\<close> with a true constant and the
  disjunction of \<open>e\<close> with a false constant evaluate to \<open>x\<close>; and a reference to an atomic
  proposition outside the relevant ones is undetermined whatever the valuation.
\<close>

theorem evalLabel_kleene:
  assumes "wfLabel als (Some e)"
  shows "(\<exists>x. x \<in> {- 1, 0, 1} \<and> evalLabel (Some e) als apIds val = Some (Val x))
       \<and> (bt_type n = NT_NOT \<and> bt_left n = Some e
            \<longrightarrow> evalLabel (Some n) als apIds val =
                map_option (mapVal flip) (evalLabel (Some e) als apIds val))
       \<and> (bt_type n = NT_AND \<and> bt_left n = Some e \<and> bt_right n = Some c
              \<and> bt_type c = NT_BOOL \<and> bt_id c \<noteq> 0
            \<longrightarrow> evalLabel (Some n) als apIds val = evalLabel (Some e) als apIds val)
       \<and> (bt_type n = NT_OR \<and> bt_left n = Some e \<and> bt_right n = Some c
              \<and> bt_type c = NT_BOOL \<and> bt_id c = 0
            \<longrightarrow> evalLabel (Some n) als apIds val = evalLabel (Some e) als apIds val)
       \<and> (bt_type n = NT_AP \<and> bt_id n \<notin> set apIds
            \<longrightarrow> evalLabel (Some n) als apIds val = Some (Val 0))"
proof (intro conjI impI)
  from wfLabel_ternary [OF assms, of apIds val]
  have tern: "evalLabel (Some e) als apIds val = Some (Val (- 1))
      \<or> evalLabel (Some e) als apIds val = Some (Val 0)
      \<or> evalLabel (Some e) als apIds val = Some (Val 1)"
    by simp
  then show "\<exists>x. x \<in> {- 1, 0, 1} \<and> evalLabel (Some e) als apIds val = Some (Val x)"
    by auto
  {
    assume n: "bt_type n = NT_NOT \<and> bt_left n = Some e"
    with tern show "evalLabel (Some n) als apIds val =
        map_option (mapVal flip) (evalLabel (Some e) als apIds val)"
      by (subst evalLabel.simps) (auto simp: flip_def)
  next
    assume n: "bt_type n = NT_AND \<and> bt_left n = Some e \<and> bt_right n = Some c
      \<and> bt_type c = NT_BOOL \<and> bt_id c \<noteq> 0"
    then have "evalLabel (Some c) als apIds val = Some (Val 1)"
      by (simp add: evalLabel_bool)
    with tern n show "evalLabel (Some n) als apIds val = evalLabel (Some e) als apIds val"
      by (subst evalLabel.simps) auto
  next
    assume n: "bt_type n = NT_OR \<and> bt_left n = Some e \<and> bt_right n = Some c
      \<and> bt_type c = NT_BOOL \<and> bt_id c = 0"
    then have "evalLabel (Some c) als apIds val = Some (Val (- 1))"
      by (simp add: evalLabel_bool)
    with tern n show "evalLabel (Some n) als apIds val = evalLabel (Some e) als apIds val"
      by (subst evalLabel.simps) auto
  next
    assume "bt_type n = NT_AP \<and> bt_id n \<notin> set apIds"
    then show "evalLabel (Some n) als apIds val = Some (Val 0)"
      by (subst evalLabel.simps) (simp add: apScan_notin)
  }
qed

text \<open>
  In the table \<open>junkAliases\<close> the reference to \<open>a\<close> resolves to the negated proposition 0; the
  entry for \<open>z\<close>, which the reference does not reach, is bound to a reference to an unbound
  alias.
\<close>

lemma junkAliases_wf: "wfLabel junkAliases (Some (aliasNode ''a''))"
proof -
  have ap: "wfLabel junkAliases (Some ap0Node)"
    by (rule wf_ap) (simp add: ap0Node_def)
  have "wfLabel junkAliases (Some notAp0Node)"
    by (rule wf_not) (simp_all add: notAp0Node_def ap)
  then show ?thesis
    by (intro wf_alias [where k = 0]) (simp_all add: junkAliases_def aliasNode_def)
qed

lemma junkAliases_not_closed: "\<not> aliasesClosed junkAliases"
  by (simp add: aliasesClosed_def junkAliases_def aliasNode_def)

theorem evalLabel_kleene_witness:
  "wfLabel junkAliases (Some (aliasNode ''a''))
   \<and> evalLabel (Some (aliasNode ''a'')) junkAliases [0] 1 = Some (Val (- 1))
   \<and> evalLabel (Some (BTree (Some (aliasNode ''a'')) None [] 0 NT_NOT)) junkAliases [0] 1
       = Some (Val (flip (- 1)))
   \<and> evalLabel (Some (BTree (Some (aliasNode ''a'')) (Some trueNode) [] 0 NT_AND))
         junkAliases [0] 1 = Some (Val (- 1))
   \<and> evalLabel (Some (BTree (Some (aliasNode ''a'')) (Some falseNode) [] 0 NT_OR))
         junkAliases [0] 1 = Some (Val (- 1))
   \<and> evalLabel (Some (BTree None None [] 7 NT_AP)) junkAliases [0] 1 = Some (Val 0)"
proof -
  note k = evalLabel_kleene [OF junkAliases_wf, where apIds = "[0]" and val = 1]
  have b: "evalLabel (Some (aliasNode ''a'')) junkAliases [0] 1 = Some (Val (- 1))"
    by code_simp
  have "evalLabel (Some (BTree (Some (aliasNode ''a'')) None [] 0 NT_NOT)) junkAliases [0] 1
      = Some (Val (flip (- 1)))"
    using k [where n = "BTree (Some (aliasNode ''a'')) None [] 0 NT_NOT"] b by simp
  moreover have "evalLabel (Some (BTree (Some (aliasNode ''a'')) (Some trueNode) [] 0 NT_AND))
      junkAliases [0] 1 = Some (Val (- 1))"
    using k [where n = "BTree (Some (aliasNode ''a'')) (Some trueNode) [] 0 NT_AND"
        and c = trueNode] b
    by (simp add: trueNode_def)
  moreover have "evalLabel (Some (BTree (Some (aliasNode ''a'')) (Some falseNode) [] 0 NT_OR))
      junkAliases [0] 1 = Some (Val (- 1))"
    using k [where n = "BTree (Some (aliasNode ''a'')) (Some falseNode) [] 0 NT_OR"
        and c = falseNode] b
    by (simp add: falseNode_def)
  moreover have "evalLabel (Some (BTree None None [] 7 NT_AP)) junkAliases [0] 1 = Some (Val 0)"
    using k [where n = "BTree None None [] 7 NT_AP"] by simp
  ultimately show ?thesis
    using junkAliases_wf b by simp
qed

text \<open>
  On the table that binds \<open>a\<close> to a reference to \<open>a\<close>, no call of \<^verbatim>\<open>evalLabel\<close> on a reference
  to \<open>a\<close> returns: a call that returned would rest on an earlier one that did.
\<close>

lemma evalLabel_cyclic_Some:
  assumes "evalLabel l als apIds val = Some r"
  shows "\<not> (l = Some (aliasNode ''a'') \<and> als = cyclicAliases)"
proof (rule evalLabel.raw_induct [where P = "\<lambda>l als apIds val r.
    \<not> (l = Some (aliasNode ''a'') \<and> als = cyclicAliases)", OF _ assms], goal_cases)
  case (1 f l als ap v r)
  show ?case
  proof
    assume "l = Some (aliasNode ''a'') \<and> als = cyclicAliases"
    with 1(2) have "f (Some (aliasNode ''a'')) cyclicAliases ap v = Some r"
      by (simp add: aliasNode_def cyclicAliases_def)
    from 1(1) [OF this] show False
      by simp
  qed
qed

lemma evalLabel_cyclic: "evalLabel (Some (aliasNode ''a'')) cyclicAliases apIds val = None"
proof (cases "evalLabel (Some (aliasNode ''a'')) cyclicAliases apIds val")
  case (Some r)
  from evalLabel_cyclic_Some [OF this] show ?thesis
    by simp
qed simp

text \<open>
  Claim C9 as stated fails. The tree that is one reference to the alias \<open>a\<close> is built of the
  label kinds and its name resolves, both in the table that binds \<open>a\<close> to a reference to the
  unbound \<open>c\<close>, where \<^verbatim>\<open>evalLabel\<close> returns \<open>-2\<close>, and in the closed table that binds \<open>a\<close> to a
  reference to \<open>a\<close>, where \<^verbatim>\<open>evalLabel\<close> calls itself without end and returns nothing.
\<close>

theorem evalLabel_not_total:
  "labelKinds danglingAliases (aliasNode ''a'')
   \<and> evalLabel (Some (aliasNode ''a'')) danglingAliases [] 0 = Some (Val (- 2))
   \<and> labelKinds cyclicAliases (aliasNode ''a'') \<and> aliasesClosed cyclicAliases
   \<and> evalLabel (Some (aliasNode ''a'')) cyclicAliases [] 0 = None"
proof -
  have "evalLabel (Some (aliasNode ''a'')) danglingAliases [] 0 = Some (Val (- 2))"
    by code_simp
  then show ?thesis
    using evalLabel_cyclic [of "[]" 0]
    by (simp add: aliasNode_def danglingAliases_def cyclicAliases_def aliasesClosed_def)
qed

text \<open>
  Claim C9, amended: for every expression tree built only of the five label node kinds plus
  alias references, where every alias reference resolves at the first entry of its name to
  such a tree again and the chain of references ends (\<open>wfLabel\<close>), \<^verbatim>\<open>evalLabel\<close> returns, and
  returns a value in \<open>{-1, 0, 1}\<close>: neither \<open>-2\<close> nor a failed assertion.
\<close>

theorem evalLabel_total:
  "wfLabel als l \<Longrightarrow> \<exists>x. evalLabel l als apIds val = Some (Val x) \<and> x \<in> {- 1, 0, 1}"
proof (induction rule: wfLabel.induct)
  case (wf_bool t)
  then show ?case
    by (subst evalLabel.simps) simp
next
  case (wf_and t)
  then show ?case
    by (subst evalLabel.simps) auto
next
  case (wf_or t)
  then show ?case
    by (subst evalLabel.simps) auto
next
  case (wf_not t)
  then show ?case
    by (subst evalLabel.simps) auto
next
  case (wf_ap t)
  then show ?case
    using apScan_range [of "bt_id t" apIds val 1] by (subst evalLabel.simps) simp
next
  case (wf_alias t k)
  from findAlias_first [OF wf_alias(2,3,4)] wf_alias(1,6) show ?case
    by (subst evalLabel.simps) simp
qed

lemma exAliases_wf: "wfLabel exAliases (Some (aliasNode ''b''))"
proof -
  have ap: "wfLabel exAliases (Some ap0Node)"
    by (rule wf_ap) (simp add: ap0Node_def)
  have "wfLabel exAliases (Some notAp0Node)"
    by (rule wf_not) (simp_all add: notAp0Node_def ap)
  then have "wfLabel exAliases (Some (aliasNode ''a''))"
    by (intro wf_alias [where k = 1]) (simp_all add: exAliases_def aliasNode_def)
  then show ?thesis
    by (intro wf_alias [where k = 0]) (simp_all add: exAliases_def aliasNode_def)
qed

theorem evalLabel_total_witness:
  "wfLabel exAliases (Some (aliasNode ''b''))
   \<and> (\<exists>x. evalLabel (Some (aliasNode ''b'')) exAliases [0] 1 = Some (Val x)
          \<and> x \<in> {- 1, 0, 1})"
  using evalLabel_total [OF exAliases_wf, of "[0]" 1] exAliases_wf by simp

section \<open>The validation gate\<close>

lemma accNameParamsLoop_found:
  "accNameParamsLoop ps (fo, mp, fr, wr) = (fo', mp', fr', wr') \<Longrightarrow>
   fo' = (fo \<or> ''max'' \<in> set ps \<or> ''min'' \<in> set ps) \<and>
   fr' = (fr \<or> ''even'' \<in> set ps \<or> ''odd'' \<in> set ps)"
  by (induction ps arbitrary: fo mp fr wr) (auto simp: Let_def split: if_splits)

lemma propertiesLoop_found:
  "propertiesLoop ps (d, c, k) = (d', c', k') \<Longrightarrow>
   d' = (d \<or> ''deterministic'' \<in> set ps) \<and>
   c' = (c \<or> ''complete'' \<in> set ps) \<and>
   k' = (k \<or> ''colored'' \<in> set ps)"
  by (induction ps arbitrary: d c k) (auto simp: Let_def split: if_splits)

lemma transLoop_stop:
  "transLoop data mp wr ucnt st v ts n vv out = Some (Inl stop) \<Longrightarrow> snd stop = Abort"
  by (induction ts arbitrary: n vv out)
     (auto simp: Let_def split: list.splits option.splits eval_res.splits if_splits)

lemma valStep_stop:
  "valStep data mp wr ucnt st f v n out = Some (Inl stop) \<Longrightarrow> snd stop = Abort"
  by (auto simp: valStep_def Let_def dest: transLoop_stop split: option.splits sum.splits list.splits)

lemma valLoop_stop:
  "valLoop data mp wr ucnt st f vs n out = Some (Inl stop) \<Longrightarrow> snd stop = Abort"
  by (induction vs arbitrary: n out)
     (auto dest: valStep_stop split: option.splits sum.splits)

lemma stateStep_stop:
  "stateStep data mp wr ucnt nv st n out = Some (Inl stop) \<Longrightarrow> snd stop = Abort"
  by (auto simp: stateStep_def Let_def dest: valLoop_stop split: option.splits sum.splits)

lemma stateLoop_stop:
  "stateLoop data mp wr ucnt nv sts n out = Some (Inl stop) \<Longrightarrow> snd stop = Abort"
  by (induction sts arbitrary: n out)
     (auto dest: stateStep_stop split: option.splits sum.splits)


lemma constructGame_exit:
  "constructGame data mp wr = Some (out, Exit c) \<Longrightarrow> c = 0"
  by (auto simp: constructGame_def Let_def dest: stateLoop_stop
      split: if_splits option.splits sum.splits)

lemma start_singleton: "(xs = [] \<or> tl xs \<noteq> []) = (length xs \<noteq> 1)"
  by (cases xs) auto

lemma main_gate:
  "main 0 data =
     (if hoa_accNameID data \<noteq> ''parity'' then Some ([], Exit 100)
      else if ''max'' \<notin> set (hoa_accNameParameters data) \<and>
              ''min'' \<notin> set (hoa_accNameParameters data) then Some ([], Exit 101)
      else if ''even'' \<notin> set (hoa_accNameParameters data) \<and>
              ''odd'' \<notin> set (hoa_accNameParameters data) then Some ([], Exit 102)
      else if ''deterministic'' \<notin> set (hoa_properties data) then Some ([], Exit 200)
      else if ''complete'' \<notin> set (hoa_properties data) then Some ([], Exit 201)
      else if ''colored'' \<notin> set (hoa_properties data) then Some ([], Exit 202)
      else if length (hoa_start data) \<noteq> 1 then Some ([], Exit 300)
      else constructGame data
             (fst (snd (accNameParamsLoop (hoa_accNameParameters data) (False, False, False, 0))))
             (snd (snd (snd (accNameParamsLoop (hoa_accNameParameters data)
                (False, False, False, 0))))))"
proof -
  obtain fo mp fr wr where a:
    "accNameParamsLoop (hoa_accNameParameters data) (False, False, False, 0) = (fo, mp, fr, wr)"
    by (metis prod_cases4)
  obtain d c k where b: "propertiesLoop (hoa_properties data) (False, False, False) = (d, c, k)"
    by (metis prod_cases3)
  from accNameParamsLoop_found [OF a] propertiesLoop_found [OF b] show ?thesis
    by (simp add: main_def a b start_singleton)
qed

text \<open>
  Claim C6 as stated fails: a parameter list that holds both \<open>max\<close> and \<open>min\<close> is not
  rejected. The loop only records that one of them was seen (the later one sets
  \<^verbatim>\<open>maxPriority\<close>), the run passes all checks and prints the game.
\<close>

theorem both_max_and_min_accepted:
  "''max'' \<in> set (hoa_accNameParameters exMaxMin)
   \<and> ''min'' \<in> set (hoa_accNameParameters exMaxMin)
   \<and> main 0 exMaxMin =
       Some ([Header 2, Vertex Compat 3 4 0 [0] ''3'', Vertex Valuation 1 0 0 [3] ''1'',
              Vertex Compat 4 4 0 [0] ''4'', Vertex Valuation 2 0 0 [4] ''2'',
              Vertex Decision 0 0 1 [1, 1, 2] ''0''], Exit 0)"
proof -
  have "main 0 exMaxMin =
      Some ([Header 2, Vertex Compat 3 4 0 [0] ''3'', Vertex Valuation 1 0 0 [3] ''1'',
             Vertex Compat 4 4 0 [0] ''4'', Vertex Valuation 2 0 0 [4] ''2'',
             Vertex Decision 0 0 1 [1, 1, 2] ''0''], Exit 0)"
    by code_simp
  then show ?thesis
    by (simp add: exMaxMin_def)
qed

text \<open>
  Claim C6, amended: for a parsed automaton whose acceptance name is \<open>parity\<close>, the run
  passes the acceptance-name parameter check if and only if the parameter list contains at
  least one of \<open>max\<close>, \<open>min\<close> and at least one of \<open>even\<close>, \<open>odd\<close>. It exits with 101 exactly
  when the list holds neither \<open>max\<close> nor \<open>min\<close>, and with 102 exactly when it holds one of
  those and neither \<open>even\<close> nor \<open>odd\<close>. Whenever a run returns an exit code other than 0
  (whatever the parser returned), it has printed nothing.
\<close>

theorem accName_parameters_gate:
  assumes "hoa_accNameID data = ''parity''"
  shows "(main 0 data = Some ([], Exit 101)) =
           (''max'' \<notin> set (hoa_accNameParameters data) \<and>
            ''min'' \<notin> set (hoa_accNameParameters data))
       \<and> (main 0 data = Some ([], Exit 102)) =
           ((''max'' \<in> set (hoa_accNameParameters data) \<or>
             ''min'' \<in> set (hoa_accNameParameters data)) \<and>
            ''even'' \<notin> set (hoa_accNameParameters data) \<and>
            ''odd'' \<notin> set (hoa_accNameParameters data))
       \<and> (main 0 data \<noteq> Some ([], Exit 101) \<and> main 0 data \<noteq> Some ([], Exit 102)) =
           ((''max'' \<in> set (hoa_accNameParameters data) \<or>
             ''min'' \<in> set (hoa_accNameParameters data)) \<and>
            (''even'' \<in> set (hoa_accNameParameters data) \<or>
             ''odd'' \<in> set (hoa_accNameParameters data)))
       \<and> (\<forall>out c. main ret data = Some (out, Exit c) \<and> c \<noteq> 0 \<longrightarrow> out = [])"
proof -
  have other: "constructGame data mp wr \<noteq> Some ([], Exit 101)"
    "constructGame data mp wr \<noteq> Some ([], Exit 102)" for mp wr
    using constructGame_exit [of data mp wr] by auto
  have quiet: "out = []" if "main r data = Some (out, Exit c)" "c \<noteq> 0" for r out c
  proof (cases "r = 0")
    case True
    with that constructGame_exit show ?thesis
      by (auto simp: main_gate split: if_splits)
  next
    case False
    with that show ?thesis
      by (simp add: main_def)
  qed
  show ?thesis
    using assms other quiet by (auto simp: main_gate)
qed

theorem accName_parameters_gate_witness:
  "hoa_accNameID exOnlyMax = ''parity''
   \<and> main 0 exOnlyMax = Some ([], Exit 102)
   \<and> main 0 exOnlyMax \<noteq> Some ([], Exit 101)"
  using accName_parameters_gate [of exOnlyMax 0]
  by (simp add: exOnlyMax_def exLoop_def)

text \<open>
  Claim C10: when a parsed automaton fails one or more of the validation checks, the run
  prints nothing and exits with the code of the first failed check in the order 100
  (acceptance name), 101 (max or min), 102 (even or odd), 200 (deterministic), 201
  (complete), 202 (colored), 300 (one start state). A Rabin automaton with two start states
  fails the checks 100 and 300 and exits with 100.
\<close>

theorem first_failed_check:
  "failedChecks data \<noteq> [] \<Longrightarrow> main 0 data = Some ([], Exit (hd (failedChecks data)))"
  by (simp add: main_gate failedChecks_def split: if_splits)

theorem first_failed_check_witness:
  "failedChecks exRabin = [100, 300] \<and> main 0 exRabin = Some ([], Exit 100)"
  using first_failed_check [of exRabin]
  by (simp add: failedChecks_def exRabin_def exLoop_def)


section \<open>The game-graph constructor: vertex lines and identifiers\<close>

lemma exLoop_run: "main 0 exLoop = Some (exLoopOut, Exit 0)"
  by code_simp

lemma exChoice_run: "main 0 exChoice = Some (exChoiceOut, Exit 0)"
  by code_simp

text \<open>
  The loop over the transitions prints one line per compatible transition, with the
  identifiers from \<^verbatim>\<open>nextIndex\<close> on in the order of the transitions, and leaves them in
  \<^verbatim>\<open>validVals\<close> in the reverse order, since every identifier is put in front.
\<close>

lemma transLoop_lines:
  "transLoop data mp wr ucnt st v ts n vv out = Some (Inr (n', vv', out')) \<Longrightarrow>
   n' = n + int (length (filter (compatible data ucnt st v) ts)) \<and>
   vv' = rev [n..n' - 1] @ vv \<and>
   out' = out @ map2 (compatLine data mp wr st) [n..n' - 1] (filter (compatible data ucnt st v) ts)"
proof (induction ts arbitrary: n vv out)
  case Nil
  then show ?case by simp
next
  case (Cons t ts)
  from Cons.prems obtain succ where succ: "tr_successors t = [succ]"
    by (auto split: list.splits)
  from Cons.prems succ obtain lab where lab: "effLabel st t = Some lab"
    by (auto simp: effLabel_def split: list.splits option.splits if_splits)
  from Cons.prems succ lab obtain a where a: "effAccSig st t = [a]"
    by (auto simp: effLabel_def effAccSig_def split: list.splits option.splits if_splits)
  from Cons.prems succ lab a obtain e where
    e: "evalLabel (Some lab) (hoa_aliases data) ucnt (word_of_int v) = Some (Val e)"
    by (auto simp: effLabel_def effAccSig_def Let_def
        split: list.splits option.splits if_splits eval_res.splits)
  show ?case
  proof (cases "e = - 1")
    case True
    with Cons.prems succ lab a e
    have "transLoop data mp wr ucnt st v ts n vv out = Some (Inr (n', vv', out'))"
      by (auto simp: effLabel_def effAccSig_def Let_def
          split: list.splits option.splits if_splits)
    from Cons.IH [OF this] True lab e show ?thesis
      by (simp add: compatible_def)
  next
    case False
    let ?line = "Vertex Compat n (adjustPriority a mp wr (hoa_noAccSets data)) 0 [succ] (showInt n)"
    from False Cons.prems succ lab a e
    have "transLoop data mp wr ucnt st v ts (n + 1) (n # vv) (out @ [?line])
        = Some (Inr (n', vv', out'))"
      by (auto simp: effLabel_def effAccSig_def Let_def prependIntNode_def
          split: list.splits option.splits if_splits)
    from Cons.IH [OF this]
    have IH: "n' = n + 1 + int (length (filter (compatible data ucnt st v) ts))"
      "vv' = rev [n + 1..n' - 1] @ n # vv"
      "out' = (out @ [?line]) @
         map2 (compatLine data mp wr st) [n + 1..n' - 1] (filter (compatible data ucnt st v) ts)"
      by auto
    from IH(1) have le: "n \<le> n' - 1"
      by simp
    have c: "compatible data ucnt st v t"
      using False lab e by (simp add: compatible_def)
    have line: "?line = compatLine data mp wr st n t"
      using succ a by (simp add: compatLine_def)
    have up: "[n..n' - 1] = n # [n + 1..n' - 1]"
      by (rule upto_rec1 [OF le])
    have "n' = n + int (length (filter (compatible data ucnt st v) (t # ts)))"
      using IH(1) c by simp
    moreover have "vv' = rev [n..n' - 1] @ vv"
      using IH(2) by (simp add: up)
    moreover have "out' = out @ map2 (compatLine data mp wr st) [n..n' - 1]
        (filter (compatible data ucnt st v) (t # ts))"
      using IH(3) c line by (simp add: up)
    ultimately show ?thesis
      by blast
  qed
qed

lemma valStep_lines:
  assumes "valStep data mp wr ucnt st f v n out = Some (Inr (n', out'))"
  shows "filter (compatible data ucnt st v) (st_transitions st) \<noteq> []
    \<and> n' = n + int (length (filter (compatible data ucnt st v) (st_transitions st)))
    \<and> out' = out @
          map2 (compatLine data mp wr st) [n..n' - 1]
            (filter (compatible data ucnt st v) (st_transitions st)) @
          [Vertex Valuation (f + v) 0 0 (rev [n..n' - 1]) (showInt (f + v))]
    \<and> sorted_wrt (>) (rev [n..n' - 1])"
proof -
  from assms obtain vv o1 where
    t: "transLoop data mp wr ucnt st v (st_transitions st) n [] out = Some (Inr (n', vv, o1))"
    and vv: "vv \<noteq> []"
    and out': "out' = o1 @ [Vertex Valuation (f + v) 0 0 vv (showInt (f + v))]"
    by (auto simp: valStep_def Let_def split: option.splits sum.splits list.splits)
  from transLoop_lines [OF t] have
    n': "n' = n + int (length (filter (compatible data ucnt st v) (st_transitions st)))"
    and vv': "vv = rev [n..n' - 1]"
    and o1: "o1 = out @ map2 (compatLine data mp wr st) [n..n' - 1]
        (filter (compatible data ucnt st v) (st_transitions st))"
    by auto
  from vv vv' n' have "filter (compatible data ucnt st v) (st_transitions st) \<noteq> []"
    by auto
  moreover have "sorted_wrt (>) (rev [n..n' - 1])"
    by (simp add: sorted_wrt_rev)
  ultimately show ?thesis
    using n' out' vv' o1 by simp
qed

text \<open>
  Claim C3 as stated fails in the order of the successors: with two compatible transitions,
  whose vertices get the identifiers 2 and 3 in this order, the line of the valuation lists
  them as 3, 2.
\<close>

theorem valuation_successors_not_ascending:
  "main 0 exChoice =
     Some ([Header 1, Vertex Compat 2 2 0 [0] ''2'', Vertex Compat 3 3 0 [0] ''3'',
            Vertex Valuation 1 0 0 [3, 2] ''1'', Vertex Decision 0 0 1 [1, 1] ''q''], Exit 0)
   \<and> \<not> sorted_wrt (<) [3, 2 :: int]"
  using exChoice_run by (simp add: exChoiceOut_def)

lemma compatLines_fields:
  "length js = length ts \<Longrightarrow>
     map v_id (map2 (compatLine data mp wr st) js ts) = js
     \<and> map v_succs (map2 (compatLine data mp wr st) js ts) = map tr_successors ts
     \<and> list_all (printedAt Compat) (map2 (compatLine data mp wr st) js ts)"
  by (induction js ts rule: list_induct2) (auto simp: compatLine_def)

text \<open>
  Claim C3, amended: for every state and every valuation of the uncontrollable propositions
  whose processing runs to its end, with \<^verbatim>\<open>nextIndex\<close> before and after it and the identifier
  \<^verbatim>\<open>firstSucc + value\<close> of the valuation vertex within the range of \<^verbatim>\<open>int\<close>, the program prints
  one vertex line per compatible transition, of which there is at least one, with that
  transition's successor and with consecutive identifiers from \<^verbatim>\<open>nextIndex\<close> on in the order
  of the transitions, all of them values of \<^verbatim>\<open>int\<close>; and then the line of the valuation
  vertex with priority 0, owner 0 and, as successors, exactly those identifiers in the
  reverse of the order in which they were allocated, that is, descending.
\<close>

theorem valuation_vertex:
  assumes "valStep data mp wr ucnt st f v n out = Some (Inr (n', out'))"
    and "cInt n" and "cInt n'" and "cInt f" and "0 \<le> v" and "cInt (f + v)"
  shows "\<exists>ls. out' = out @ ls @
            [Vertex Valuation (f + v) 0 0 (rev (map v_id ls)) (showInt (f + v))]
    \<and> ls \<noteq> []
    \<and> list_all (printedAt Compat) ls
    \<and> map v_succs ls =
        map tr_successors (filter (compatible data ucnt st v) (st_transitions st))
    \<and> map v_id ls = [n..n' - 1]
    \<and> list_all cInt (map v_id ls)
    \<and> sorted_wrt (>) (rev (map v_id ls))"
proof -
  define ts where "ts = filter (compatible data ucnt st v) (st_transitions st)"
  define ls where "ls = map2 (compatLine data mp wr st) [n..n' - 1] ts"
  note lines = valStep_lines [OF assms(1), folded ts_def, folded ls_def]
  from lines have ne: "ts \<noteq> []"
    by (rule conjunct1)
  from lines have n': "n' = n + int (length ts)"
    by blast
  from lines have out': "out' = out @ ls @
      [Vertex Valuation (f + v) 0 0 (rev [n..n' - 1]) (showInt (f + v))]"
    by blast
  from lines have desc: "sorted_wrt (>) (rev [n..n' - 1])"
    by blast
  from n' have len: "length [n..n' - 1] = length ts"
    by simp
  from compatLines_fields [OF len, of data mp wr st]
  have ids: "map v_id ls = [n..n' - 1]"
    and succs: "map v_succs ls = map tr_successors ts"
    and sites: "list_all (printedAt Compat) ls"
    by (simp_all add: ls_def)
  from ids len ne have "ls \<noteq> []"
    by auto
  moreover have "list_all cInt [n..n' - 1]"
    using assms(2,3) by (auto simp: list_all_iff cInt_def)
  ultimately show ?thesis
    using out' ids succs sites desc by (auto simp: ts_def)
qed

theorem valuation_vertex_witness:
  "valStep exChoice True 0 [] exChoiceState 1 0 2 [Header 1] =
     Some (Inr (4, [Header 1, Vertex Compat 2 2 0 [0] ''2'', Vertex Compat 3 3 0 [0] ''3'',
       Vertex Valuation 1 0 0 [3, 2] ''1'']))
   \<and> cInt 2 \<and> cInt 4 \<and> cInt 1 \<and> (0::int) \<le> 0 \<and> cInt (1 + 0)
   \<and> (\<exists>ls. [Header 1, Vertex Compat 2 2 0 [0] ''2'', Vertex Compat 3 3 0 [0] ''3'',
              Vertex Valuation 1 0 0 [3, 2] ''1''] =
            [Header 1] @ ls @ [Vertex Valuation 1 0 0 (rev (map v_id ls)) ''1'']
          \<and> map v_id ls = [2, 3]
          \<and> rev (map v_id ls) = [3, 2])"
proof -
  have run: "valStep exChoice True 0 [] exChoiceState 1 0 2 [Header 1] =
      Some (Inr (4, [Header 1, Vertex Compat 2 2 0 [0] ''2'', Vertex Compat 3 3 0 [0] ''3'',
        Vertex Valuation 1 0 0 [3, 2] ''1'']))"
    by code_simp
  have range: "cInt 2" "cInt 4" "cInt 1" "(0::int) \<le> 0" "cInt (1 + 0)"
    by (simp_all add: cInt_def)
  have up: "[2..4 - 1] = [2, 3 :: int]"
    by (simp add: upto_rec1)
  have lbl: "showInt (1 + 0) = ''1''"
    by code_simp
  from valuation_vertex [OF run range] obtain ls where
    "[Header 1, Vertex Compat 2 2 0 [0] ''2'', Vertex Compat 3 3 0 [0] ''3'',
       Vertex Valuation 1 0 0 [3, 2] ''1''] =
     [Header 1] @ ls @ [Vertex Valuation (1 + 0) 0 0 (rev (map v_id ls)) (showInt (1 + 0))]"
    and "map v_id ls = [2..4 - 1]"
    by blast
  then have "[Header 1, Vertex Compat 2 2 0 [0] ''2'', Vertex Compat 3 3 0 [0] ''3'',
       Vertex Valuation 1 0 0 [3, 2] ''1''] =
     [Header 1] @ ls @ [Vertex Valuation 1 0 0 (rev (map v_id ls)) ''1'']
     \<and> map v_id ls = [2, 3] \<and> rev (map v_id ls) = [3, 2]"
    by (simp only: up lbl) simp
  then have ex: "\<exists>ls. [Header 1, Vertex Compat 2 2 0 [0] ''2'', Vertex Compat 3 3 0 [0] ''3'',
       Vertex Valuation 1 0 0 [3, 2] ''1''] =
     [Header 1] @ ls @ [Vertex Valuation 1 0 0 (rev (map v_id ls)) ''1'']
     \<and> map v_id ls = [2, 3] \<and> rev (map v_id ls) = [3, 2]"
    by (rule exI)
  show ?thesis
    by (intro conjI run range ex)
qed


lemma upto_join: "n \<le> m \<Longrightarrow> m \<le> n' \<Longrightarrow> [n..m - 1] @ [m..n' - 1] = [n..n' - 1]"
proof (cases "m = n'")
  case True
  then show ?thesis by simp
next
  case False
  assume "n \<le> m" "m \<le> n'"
  with False show ?thesis
    using upto_split1 [of n m "n' - 1"] by simp
qed

lemma map_shift_upto: "map (\<lambda>v. n + v) [i..j] = [n + i..n + j]"
proof (induction i j rule: upto.induct)
  case (1 i j)
  show ?case
  proof (cases "i \<le> j")
    case True
    with 1 show ?thesis
      by (simp add: upto_rec1 [of i j] upto_rec1 [of "n + i" "n + j"] add.assoc)
  next
    case False
    then show ?thesis by simp
  qed
qed

lemma idsAt_append [simp]: "idsAt k (xs @ ys) = idsAt k xs @ idsAt k ys"
  by (simp add: idsAt_def)

lemma idsAt_compatLines:
  "length is = length ts \<Longrightarrow>
   idsAt k (map2 (compatLine data mp wr st) is ts) = (if k = Compat then is else [])"
  by (induction "is" ts rule: list_induct2) (auto simp: idsAt_def compatLine_def)

lemma isVertex_compatLines:
  "list_all isVertex (map2 (compatLine data mp wr st) is ts)"
  by (simp add: list_all_iff compatLine_def split_beta)

lemma valStep_ids:
  assumes "valStep data mp wr ucnt st f v n out = Some (Inr (n', out'))"
  shows "\<exists>ls. out' = out @ ls \<and> list_all isVertex ls \<and> idsAt Compat ls = [n..n' - 1]
    \<and> idsAt Valuation ls = [f + v] \<and> idsAt Decision ls = [] \<and> n < n'"
proof -
  let ?cs = "filter (compatible data ucnt st v) (st_transitions st)"
  from valStep_lines [OF assms] have
    ne: "?cs \<noteq> []" and n': "n' = n + int (length ?cs)"
    and out': "out' = out @ (map2 (compatLine data mp wr st) [n..n' - 1] ?cs @
          [Vertex Valuation (f + v) 0 0 (rev [n..n' - 1]) (showInt (f + v))])"
    by auto
  have len: "length [n..n' - 1] = length ?cs"
    using n' by simp
  let ?cl = "map2 (compatLine data mp wr st) [n..n' - 1] ?cs"
  let ?vl = "Vertex Valuation (f + v) 0 0 (rev [n..n' - 1]) (showInt (f + v))"
  have ids: "idsAt Compat ?cl = [n..n' - 1]" "idsAt Valuation ?cl = []"
    "idsAt Decision ?cl = []"
    by (simp_all add: idsAt_compatLines [OF len])
  have one: "idsAt Compat [?vl] = []" "idsAt Valuation [?vl] = [f + v]"
    "idsAt Decision [?vl] = []"
    by (simp_all add: idsAt_def)
  have "list_all isVertex (?cl @ [?vl])"
    using isVertex_compatLines [of data mp wr st "[n..n' - 1]" ?cs] by simp
  moreover have "n < n'"
    using ne n' by simp
  ultimately show ?thesis
    using out' ids one by (intro exI [of _ "?cl @ [?vl]"]) (simp only: idsAt_append, simp)
qed

lemma valLoop_ids:
  "valLoop data mp wr ucnt st f vs n out = Some (Inr (n', out')) \<Longrightarrow>
   \<exists>ls. out' = out @ ls \<and> list_all isVertex ls \<and> idsAt Compat ls = [n..n' - 1]
     \<and> idsAt Valuation ls = map (\<lambda>v. f + v) vs \<and> idsAt Decision ls = []
     \<and> n + int (length vs) \<le> n'"
proof (induction vs arbitrary: n out)
  case Nil
  then show ?case by (simp add: idsAt_def)
next
  case (Cons v vs)
  from Cons.prems obtain m o1 where
    step: "valStep data mp wr ucnt st f v n out = Some (Inr (m, o1))"
    and rest: "valLoop data mp wr ucnt st f vs m o1 = Some (Inr (n', out'))"
    by (auto split: option.splits sum.splits)
  from valStep_ids [OF step] obtain l1 where l1: "o1 = out @ l1" "list_all isVertex l1"
    "idsAt Compat l1 = [n..m - 1]" "idsAt Valuation l1 = [f + v]" "idsAt Decision l1 = []"
    "n < m"
    by blast
  from Cons.IH [OF rest] obtain l2 where l2: "out' = o1 @ l2" "list_all isVertex l2"
    "idsAt Compat l2 = [m..n' - 1]" "idsAt Valuation l2 = map (\<lambda>v. f + v) vs"
    "idsAt Decision l2 = []" "m + int (length vs) \<le> n'"
    by blast
  have "[n..m - 1] @ [m..n' - 1] = [n..n' - 1]"
    using l1(6) l2(6) by (intro upto_join) auto
  with l1 l2 show ?case
    by (intro exI [of _ "l1 @ l2"]) auto
qed

lemma stateStep_ids:
  assumes "stateStep data mp wr ucnt nv st n out = Some (Inr (n', out'))" and "0 \<le> nv"
  shows "\<exists>ls. out' = out @ ls \<and> list_all isVertex ls \<and> idsAt Valuation ls = [n..n + nv - 1]
    \<and> idsAt Compat ls = [n + nv..n' - 1] \<and> idsAt Decision ls = [st_id st]
    \<and> n + 2 * nv \<le> n'"
proof -
  let ?dl = "Vertex Decision (st_id st) 0 1 (n # [n..n + nv - 1])
    (case st_name st of Some name \<Rightarrow> name | None \<Rightarrow> showInt (st_id st))"
  from assms(1) obtain o1 where
    loop: "valLoop data mp wr ucnt st n [0..nv - 1] (n + nv) out = Some (Inr (n', o1))"
    and out': "out' = o1 @ [?dl]"
    by (auto simp: stateStep_def Let_def split: option.splits sum.splits)
  from valLoop_ids [OF loop] obtain l1 where l1: "o1 = out @ l1" "list_all isVertex l1"
    "idsAt Compat l1 = [n + nv..n' - 1]" "idsAt Valuation l1 = map (\<lambda>v. n + v) [0..nv - 1]"
    "idsAt Decision l1 = []" "n + nv + int (length [0..nv - 1]) \<le> n'"
    by blast
  have "n + 0 = n" "n + (nv - 1) = n + nv - 1"
    by simp_all
  then have vals: "map (\<lambda>v. n + v) [0..nv - 1] = [n..n + nv - 1]"
    by (simp only: map_shift_upto)
  have one: "idsAt Compat [?dl] = []" "idsAt Valuation [?dl] = []"
    "idsAt Decision [?dl] = [st_id st]"
    by (simp_all add: idsAt_def)
  have "n + 2 * nv \<le> n'"
    using l1(6) assms(2) by simp
  with l1 out' vals one show ?thesis
    by (intro exI [of _ "l1 @ [?dl]"]) (simp only: idsAt_append, simp)
qed

text \<open>
  The identifiers handed out while \<^verbatim>\<open>nextIndex\<close> goes from \<open>n\<close> to \<open>n'\<close>, as they appear in the
  lines \<open>ls\<close> printed meanwhile.
\<close>

lemma stateLoop_ids:
  assumes "0 \<le> nv"
  shows "stateLoop data mp wr ucnt nv sts n out = Some (Inr (n', out')) \<Longrightarrow>
   \<exists>ls. out' = out @ ls \<and> list_all isVertex ls
     \<and> idsAt Decision ls = map st_id sts
     \<and> sorted_wrt (<) (idsAt Valuation ls) \<and> sorted_wrt (<) (idsAt Compat ls)
     \<and> set (idsAt Valuation ls) \<inter> set (idsAt Compat ls) = {}
     \<and> set (idsAt Valuation ls) \<union> set (idsAt Compat ls) = {n..<n'}
     \<and> int (length (idsAt Valuation ls)) = int (length sts) * nv
     \<and> n' = n + int (length (idsAt Valuation ls)) + int (length (idsAt Compat ls))
     \<and> n + 2 * int (length sts) * nv \<le> n'"
proof (induction sts arbitrary: n out)
  case Nil
  then show ?case by (simp add: idsAt_def)
next
  case (Cons st sts)
  from Cons.prems obtain m o1 where
    step: "stateStep data mp wr ucnt nv st n out = Some (Inr (m, o1))"
    and rest: "stateLoop data mp wr ucnt nv sts m o1 = Some (Inr (n', out'))"
    by (auto split: option.splits sum.splits)
  from stateStep_ids [OF step assms] obtain l1 where l1: "o1 = out @ l1"
    "list_all isVertex l1" "idsAt Valuation l1 = [n..n + nv - 1]"
    "idsAt Compat l1 = [n + nv..m - 1]" "idsAt Decision l1 = [st_id st]" "n + 2 * nv \<le> m"
    by blast
  from Cons.IH [OF rest] obtain l2 where l2: "out' = o1 @ l2" "list_all isVertex l2"
    "idsAt Decision l2 = map st_id sts"
    "sorted_wrt (<) (idsAt Valuation l2)" "sorted_wrt (<) (idsAt Compat l2)"
    "set (idsAt Valuation l2) \<inter> set (idsAt Compat l2) = {}"
    "set (idsAt Valuation l2) \<union> set (idsAt Compat l2) = {m..<n'}"
    "int (length (idsAt Valuation l2)) = int (length sts) * nv"
    "n' = m + int (length (idsAt Valuation l2)) + int (length (idsAt Compat l2))"
    "m + 2 * int (length sts) * nv \<le> n'"
    by blast
  from l2(7) have later: "\<forall>y \<in> set (idsAt Valuation l2) \<union> set (idsAt Compat l2). m \<le> y \<and> y < n'"
    by auto
  have nv: "0 \<le> nv"
    by (rule assms)
  have v1: "\<forall>x \<in> set (idsAt Valuation l1). n \<le> x \<and> x < n + nv"
    using l1(3) by auto
  have c1: "\<forall>x \<in> set (idsAt Compat l1). n + nv \<le> x \<and> x < m"
    using l1(4) by auto
  have earlier: "\<forall>x \<in> set (idsAt Valuation l1) \<union> set (idsAt Compat l1). x < m"
    using v1 c1 l1(6) nv by fastforce
  have cross: "\<forall>x \<in> set (idsAt Valuation l1) \<union> set (idsAt Compat l1).
      \<forall>y \<in> set (idsAt Valuation l2) \<union> set (idsAt Compat l2). x < y"
  proof (intro ballI)
    fix x y
    assume "x \<in> set (idsAt Valuation l1) \<union> set (idsAt Compat l1)"
      and "y \<in> set (idsAt Valuation l2) \<union> set (idsAt Compat l2)"
    with earlier later have "x < m" "m \<le> y"
      by blast+
    then show "x < y"
      by simp
  qed
  have s1: "sorted_wrt (<) (idsAt Valuation l1)" "sorted_wrt (<) (idsAt Compat l1)"
    using l1(3,4) by simp_all
  have sv: "sorted_wrt (<) (idsAt Valuation (l1 @ l2))"
    using s1 l2(4) cross by (simp add: sorted_wrt_append)
  have sc: "sorted_wrt (<) (idsAt Compat (l1 @ l2))"
    using s1 l2(5) cross by (simp add: sorted_wrt_append)
  have d1: "set (idsAt Valuation l1) \<inter> set (idsAt Compat l1) = {}"
    using v1 c1 by fastforce
  have disj: "set (idsAt Valuation (l1 @ l2)) \<inter> set (idsAt Compat (l1 @ l2)) = {}"
  proof -
    have "set (idsAt Valuation l1) \<inter> set (idsAt Compat l2) = {}"
      "set (idsAt Valuation l2) \<inter> set (idsAt Compat l1) = {}"
      using cross by fastforce+
    with d1 l2(6) show ?thesis
      by (simp add: Int_Un_distrib Int_Un_distrib2)
  qed
  have un: "set (idsAt Valuation (l1 @ l2)) \<union> set (idsAt Compat (l1 @ l2)) = {n..<n'}"
  proof -
    have e1: "set (idsAt Valuation l1) \<union> set (idsAt Compat l1) = {n..<m}"
      using l1(3,4,6) nv by auto
    have "0 \<le> 2 * int (length sts) * nv"
      using nv by simp
    then have le: "n \<le> m" "m \<le> n'"
      using l1(6) l2(10) nv by linarith+
    have "set (idsAt Valuation (l1 @ l2)) \<union> set (idsAt Compat (l1 @ l2)) =
        (set (idsAt Valuation l1) \<union> set (idsAt Compat l1)) \<union>
        (set (idsAt Valuation l2) \<union> set (idsAt Compat l2))"
      by auto
    also have "\<dots> = {n..<m} \<union> {m..<n'}"
      by (simp only: e1 l2(7))
    also have "\<dots> = {n..<n'}"
      using le by auto
    finally show ?thesis .
  qed
  have lv: "int (length (idsAt Valuation (l1 @ l2))) = int (length (st # sts)) * nv"
    using l1(3) l2(8) nv by (simp add: algebra_simps)
  have cnt: "n' = n + int (length (idsAt Valuation (l1 @ l2)))
      + int (length (idsAt Compat (l1 @ l2)))"
    using l1(3,4,6) l2(9) nv by simp
  have low: "n + 2 * int (length (st # sts)) * nv \<le> n'"
    using l1(6) l2(10) by (simp add: algebra_simps)
  have "out' = out @ (l1 @ l2)" "list_all isVertex (l1 @ l2)"
    "idsAt Decision (l1 @ l2) = map st_id (st # sts)"
    using l1 l2 by simp_all
  with sv sc disj un lv cnt low show ?case
    by blast
qed

text \<open>The same identifiers, in the order of their allocation.\<close>

lemma allocationOrder_append:
  "list_all isVertex xs \<Longrightarrow> idsAt Decision xs = [] \<Longrightarrow>
   allocationOrder (xs @ ys) vs cs =
     allocationOrder ys (vs @ idsAt Valuation xs) (cs @ idsAt Compat xs)"
proof (induction xs arbitrary: vs cs)
  case Nil
  then show ?case by (simp add: idsAt_def)
next
  case (Cons l ls)
  then obtain s i p ow succs lbl where l: "l = Vertex s i p ow succs lbl"
    by (cases l) auto
  from Cons.prems l have rest: "list_all isVertex ls" "idsAt Decision ls = []"
    by (auto simp: idsAt_def split: if_splits)
  from Cons.prems l have "s \<noteq> Decision"
    by (auto simp: idsAt_def)
  with l Cons.IH [OF rest] show ?case
    by (cases s) (simp_all add: idsAt_def)
qed

lemma stateStep_alloc:
  assumes "stateStep data mp wr ucnt nv st n out = Some (Inr (n', out'))" and "0 \<le> nv"
  shows "\<exists>ls. out' = out @ ls \<and>
    (\<forall>rest. allocationOrder (ls @ rest) [] [] = [n..n' - 1] @ allocationOrder rest [] [])"
proof -
  let ?dl = "Vertex Decision (st_id st) 0 1 (n # [n..n + nv - 1])
    (case st_name st of Some name \<Rightarrow> name | None \<Rightarrow> showInt (st_id st))"
  from assms(1) obtain o1 where
    loop: "valLoop data mp wr ucnt st n [0..nv - 1] (n + nv) out = Some (Inr (n', o1))"
    and out': "out' = o1 @ [?dl]"
    by (auto simp: stateStep_def Let_def split: option.splits sum.splits)
  from valLoop_ids [OF loop] obtain l1 where l1: "o1 = out @ l1" "list_all isVertex l1"
    "idsAt Compat l1 = [n + nv..n' - 1]" "idsAt Valuation l1 = map (\<lambda>v. n + v) [0..nv - 1]"
    "idsAt Decision l1 = []" "n + nv + int (length [0..nv - 1]) \<le> n'"
    by blast
  have "n + 0 = n" "n + (nv - 1) = n + nv - 1"
    by simp_all
  then have vals: "map (\<lambda>v. n + v) [0..nv - 1] = [n..n + nv - 1]"
    by (simp only: map_shift_upto)
  have join: "[n..n + nv - 1] @ [n + nv..n' - 1] = [n..n' - 1]"
    using l1(6) assms(2) by (intro upto_join) auto
  have "allocationOrder ((l1 @ [?dl]) @ rest) [] [] = [n..n' - 1] @ allocationOrder rest [] []"
    for rest
    using allocationOrder_append [OF l1(2,5), of "?dl # rest" "[]" "[]"] join
    by (simp add: l1(3,4) vals)
  with l1(1) out' show ?thesis
    by (intro exI [of _ "l1 @ [?dl]"]) simp
qed

lemma stateLoop_alloc:
  assumes "0 \<le> nv"
  shows "stateLoop data mp wr ucnt nv sts n out = Some (Inr (n', out')) \<Longrightarrow>
   \<exists>ls. out' = out @ ls \<and> allocationOrder ls [] [] = [n..n' - 1] \<and> n \<le> n'"
proof (induction sts arbitrary: n out)
  case Nil
  then show ?case by simp
next
  case (Cons st sts)
  from Cons.prems obtain m o1 where
    step: "stateStep data mp wr ucnt nv st n out = Some (Inr (m, o1))"
    and rest: "stateLoop data mp wr ucnt nv sts m o1 = Some (Inr (n', out'))"
    by (auto split: option.splits sum.splits)
  from stateStep_alloc [OF step assms] obtain l1 where l1: "o1 = out @ l1"
    "\<And>rest. allocationOrder (l1 @ rest) [] [] = [n..m - 1] @ allocationOrder rest [] []"
    by blast
  from stateStep_ids [OF step assms] assms have nm: "n \<le> m"
    by auto
  from Cons.IH [OF rest] obtain l2 where l2: "out' = o1 @ l2"
    "allocationOrder l2 [] [] = [m..n' - 1]" "m \<le> n'"
    by blast
  have "allocationOrder (l1 @ l2) [] [] = [n..n' - 1]"
    using l1(2) [of l2] l2(2) upto_join [OF nm l2(3)] by simp
  with l1(1) l2(1,3) nm show ?case
    by (intro exI [of _ "l1 @ l2"]) simp
qed

lemma main_success:
  assumes "main ret data = Some (out, Exit 0)"
  shows "\<exists>mp wr. constructGame data mp wr = Some (out, Exit 0)"
proof -
  from assms have "ret = 0"
    by (auto simp: main_def split: if_splits)
  with assms show ?thesis
    by (auto simp: main_def split: if_splits prod.splits)
qed

lemma constructGame_ids:
  assumes "constructGame data mp wr = Some (out, Exit 0)"
  shows "\<exists>nv n' ls. 1 \<le> nv
    \<and> out = Header (hoa_noStates data * (nv + 1) - 1) # ls \<and> list_all isVertex ls
    \<and> idsAt Decision ls = map st_id (hoa_states data)
    \<and> sorted_wrt (<) (idsAt Valuation ls) \<and> sorted_wrt (<) (idsAt Compat ls)
    \<and> set (idsAt Valuation ls) \<inter> set (idsAt Compat ls) = {}
    \<and> set (idsAt Valuation ls) \<union> set (idsAt Compat ls) = {hoa_noStates data..<n'}
    \<and> n' = hoa_noStates data + int (length (idsAt Valuation ls))
          + int (length (idsAt Compat ls))
    \<and> hoa_noStates data + 2 * int (length (hoa_states data)) * nv \<le> n'
    \<and> allocationOrder ls [] [] = [hoa_noStates data..n' - 1]"
proof -
  define ucnt where "ucnt = filter (\<lambda>i. i \<notin> set (hoa_cntAPs data)) [0..hoa_noAPs data - 1]"
  define nv :: int where "nv = 2 ^ nat (hoa_noAPs data - int (length (hoa_cntAPs data)))"
  define hd where "hd = Header (hoa_noStates data * (nv + 1) - 1)"
  have nv: "1 \<le> nv"
    by (simp add: nv_def)
  from assms obtain n' where
    loop: "stateLoop data mp wr ucnt nv (hoa_states data) (hoa_noStates data) [hd]
      = Some (Inr (n', out))"
    using stateLoop_stop [of data mp wr ucnt nv "hoa_states data" "hoa_noStates data" "[hd]"]
    by (auto simp: constructGame_def Let_def ucnt_def nv_def hd_def
        split: if_splits option.splits sum.splits)
  from nv have nv0: "0 \<le> nv"
    by simp
  from stateLoop_alloc [OF nv0 loop] obtain ls where
    ls: "out = [hd] @ ls" "allocationOrder ls [] [] = [hoa_noStates data..n' - 1]"
    by blast
  from stateLoop_ids [OF nv0 loop] ls(1) have "list_all isVertex ls
     \<and> idsAt Decision ls = map st_id (hoa_states data)
     \<and> sorted_wrt (<) (idsAt Valuation ls) \<and> sorted_wrt (<) (idsAt Compat ls)
     \<and> set (idsAt Valuation ls) \<inter> set (idsAt Compat ls) = {}
     \<and> set (idsAt Valuation ls) \<union> set (idsAt Compat ls) = {hoa_noStates data..<n'}
     \<and> n' = hoa_noStates data + int (length (idsAt Valuation ls))
          + int (length (idsAt Compat ls))
     \<and> hoa_noStates data + 2 * int (length (hoa_states data)) * nv \<le> n'"
    by auto
  with nv ls show ?thesis
    unfolding hd_def by (intro exI [of _ nv] exI [of _ n'] exI [of _ ls]) simp
qed

lemma vertex_ids_by_site:
  "list_all isVertex ls \<Longrightarrow>
   set (map v_id ls) = set (idsAt Decision ls) \<union> set (idsAt Valuation ls) \<union> set (idsAt Compat ls)"
proof (induction ls)
  case Nil
  then show ?case by (simp add: idsAt_def)
next
  case (Cons l ls)
  then obtain s i p ow succs lbl where l: "l = Vertex s i p ow succs lbl"
    by (cases l) auto
  with Cons show ?case
    by (cases s) (auto simp: idsAt_def)
qed

lemma distinct_by_site:
  assumes "list_all isVertex ls"
    and "distinct (idsAt Decision ls)" "distinct (idsAt Valuation ls)"
    and "distinct (idsAt Compat ls)"
    and "set (idsAt Decision ls) \<inter> set (idsAt Valuation ls) = {}"
    and "set (idsAt Decision ls) \<inter> set (idsAt Compat ls) = {}"
    and "set (idsAt Valuation ls) \<inter> set (idsAt Compat ls) = {}"
  shows "distinct (map v_id ls)"
  using assms
proof (induction ls)
  case Nil
  then show ?case by simp
next
  case (Cons l ls)
  then obtain s i p ow succs lbl where l: "l = Vertex s i p ow succs lbl"
    by (cases l) auto
  from Cons.prems(1) have all: "list_all isVertex ls"
    by simp
  have rest: "distinct (map v_id ls)"
    using Cons.prems l by (intro Cons.IH) (cases s; auto simp: idsAt_def)+
  have "i \<notin> set (map v_id ls)"
    unfolding vertex_ids_by_site [OF all]
    using Cons.prems l by (cases s) (auto simp: idsAt_def)
  with rest l show ?case
    by simp
qed

text \<open>
  A run that prints the whole game has passed \<^verbatim>\<open>assert(apIdx == numUcntAPs)\<close>, so
  \<^verbatim>\<open>numUcntAPs\<close> is not negative.
\<close>

lemma constructGame_numUcntAPs:
  assumes "constructGame data mp wr = Some (out, Exit 0)"
  shows "0 \<le> hoa_noAPs data - int (length (hoa_cntAPs data))"
proof (rule ccontr)
  assume "\<not> 0 \<le> hoa_noAPs data - int (length (hoa_cntAPs data))"
  then have "int (length (filter (\<lambda>i. i \<notin> set (hoa_cntAPs data)) [0..hoa_noAPs data - 1]))
      \<noteq> hoa_noAPs data - int (length (hoa_cntAPs data))"
    by linarith
  with assms show False
    by (simp add: constructGame_def Let_def)
qed

lemma numValuations_cInt:
  assumes "n \<le> 30"
  shows "cInt (2 ^ nat n)"
proof -
  from assms have "nat n \<le> 30"
    by simp
  then have "(2::int) ^ nat n \<le> 2 ^ 30"
    by (intro power_increasing) simp_all
  then have le: "(2::int) ^ nat n \<le> 1073741824"
    by simp
  have ge: "(0::int) \<le> 2 ^ nat n"
    by simp
  show ?thesis
    unfolding cInt_def using le ge by linarith
qed

text \<open>
  Claim C8: in every run that prints the whole game, with at most 30 uncontrollable
  propositions (so that \<^verbatim>\<open>1 << numUcntAPs\<close> is the power of two) and with \<^verbatim>\<open>noStates\<close> and the
  final \<^verbatim>\<open>nextIndex\<close>, which is \<^verbatim>\<open>noStates\<close> plus the number of fresh vertices, within the range
  of \<^verbatim>\<open>int\<close>, the lines of the states carry the identifiers of the states, unchanged and in
  the order of the states. Every other vertex gets a fresh identifier, a value of \<^verbatim>\<open>int\<close>:
  in the order of allocation (state by state; for a state its valuation vertices, then its
  compatible-transition vertices valuation by valuation and transition by transition) the
  identifiers are \<^verbatim>\<open>noStates\<close>, \<^verbatim>\<open>noStates + 1\<close> and so on without a gap. In the order of the
  output the identifiers of the valuation vertices and those of the compatible-transition
  vertices are each strictly increasing, and no identifier belongs to both kinds. So when
  the identifiers of the states are pairwise different and lie in \<open>0..noStates-1\<close>, as the
  automaton model demands, no identifier is given to two vertices. The numbering is a
  function of the input, as \<open>main\<close> is a function.
\<close>

theorem vertex_ids_allocation:
  assumes "main ret data = Some (out, Exit 0)"
    and "hoa_noAPs data - int (length (hoa_cntAPs data)) \<le> 30"
    and "cInt (hoa_noStates data)"
    and "cInt (hoa_noStates data + int (length (idsAt Valuation out))
           + int (length (idsAt Compat out)))"
  shows "idsAt Decision out = map st_id (hoa_states data)
    \<and> sorted_wrt (<) (idsAt Valuation out) \<and> sorted_wrt (<) (idsAt Compat out)
    \<and> set (idsAt Valuation out) \<inter> set (idsAt Compat out) = {}
    \<and> set (idsAt Valuation out) \<union> set (idsAt Compat out) =
          {hoa_noStates data..<hoa_noStates data + int (length (idsAt Valuation out))
             + int (length (idsAt Compat out))}
    \<and> allocationOrder out [] [] =
          [hoa_noStates data..hoa_noStates data + int (length (idsAt Valuation out))
             + int (length (idsAt Compat out)) - 1]
    \<and> (distinct (map st_id (hoa_states data))
          \<and> (\<forall>s \<in> set (hoa_states data). 0 \<le> st_id s \<and> st_id s < hoa_noStates data)
        \<longrightarrow> distinct (vertexIds out))
    \<and> 0 \<le> hoa_noAPs data - int (length (hoa_cntAPs data))
    \<and> cInt (2 ^ nat (hoa_noAPs data - int (length (hoa_cntAPs data))))
    \<and> list_all cInt (idsAt Valuation out @ idsAt Compat out)"
proof -
  from main_success [OF assms(1)] obtain mp wr where
    game: "constructGame data mp wr = Some (out, Exit 0)"
    by blast
  from constructGame_ids [OF game] obtain h n' ls where
    out: "out = Header h # ls" and all: "list_all isVertex ls"
    and dec: "idsAt Decision ls = map st_id (hoa_states data)"
    and sv: "sorted_wrt (<) (idsAt Valuation ls)" and sc: "sorted_wrt (<) (idsAt Compat ls)"
    and disj: "set (idsAt Valuation ls) \<inter> set (idsAt Compat ls) = {}"
    and un: "set (idsAt Valuation ls) \<union> set (idsAt Compat ls) = {hoa_noStates data..<n'}"
    and n': "n' = hoa_noStates data + int (length (idsAt Valuation ls))
          + int (length (idsAt Compat ls))"
    and alloc: "allocationOrder ls [] [] = [hoa_noStates data..n' - 1]"
    by blast
  have hd: "idsAt k out = idsAt k ls" for k
    by (simp add: out idsAt_def)
  have ao: "allocationOrder out [] [] = allocationOrder ls [] []"
    by (simp add: out)
  have vi: "vertexIds out = map v_id ls"
    using all by (simp add: out vertexIds_def list_all_iff filter_id_conv)
  have "distinct (vertexIds out)"
    if d: "distinct (map st_id (hoa_states data))"
      and r: "\<forall>s \<in> set (hoa_states data). 0 \<le> st_id s \<and> st_id s < hoa_noStates data"
  proof -
    have low: "\<forall>x \<in> set (idsAt Decision ls). x < hoa_noStates data"
      using r by (auto simp: dec)
    have high: "\<forall>x \<in> set (idsAt Valuation ls) \<union> set (idsAt Compat ls). hoa_noStates data \<le> x"
      unfolding un by simp
    have "False" if "x \<in> set (idsAt Decision ls)"
      and "x \<in> set (idsAt Valuation ls) \<union> set (idsAt Compat ls)" for x
    proof -
      from that low high have "x < hoa_noStates data" "hoa_noStates data \<le> x"
        by blast+
      then show False
        by simp
    qed
    then have "set (idsAt Decision ls) \<inter> set (idsAt Valuation ls) = {}"
      "set (idsAt Decision ls) \<inter> set (idsAt Compat ls) = {}"
      by blast+
    moreover have "distinct (idsAt Valuation ls)" "distinct (idsAt Compat ls)"
      using sv sc by (simp_all add: strict_sorted_iff)
    moreover have "distinct (idsAt Decision ls)"
      using d by (simp add: dec)
    ultimately show ?thesis
      unfolding vi using all disj by (intro distinct_by_site)
  qed
  moreover have "0 \<le> hoa_noAPs data - int (length (hoa_cntAPs data))"
    using game by (rule constructGame_numUcntAPs)
  moreover have "cInt (2 ^ nat (hoa_noAPs data - int (length (hoa_cntAPs data))))"
    using assms(2) by (rule numValuations_cInt)
  moreover have "list_all cInt (idsAt Valuation out @ idsAt Compat out)"
  proof -
    from assms(4) have top: "cInt n'"
      by (simp add: hd n')
    have "cInt x" if "x \<in> set (idsAt Valuation ls) \<union> set (idsAt Compat ls)" for x
    proof -
      from that have "hoa_noStates data \<le> x" "x < n'"
        unfolding un by simp_all
      with assms(3) top show ?thesis
        by (simp add: cInt_def)
    qed
    then show ?thesis
      by (auto simp: hd list_all_iff)
  qed
  ultimately show ?thesis
    using dec sv sc disj un n' alloc by (simp add: hd ao)
qed

theorem vertex_ids_allocation_witness:
  "main 0 exChoice = Some (exChoiceOut, Exit 0)
   \<and> hoa_noAPs exChoice - int (length (hoa_cntAPs exChoice)) = 0
   \<and> map st_id (hoa_states exChoice) = [0] \<and> hoa_noStates exChoice = 1
   \<and> cInt 1 \<and> cInt (1 + 1 + 2)
   \<and> idsAt Decision exChoiceOut = [0]
   \<and> idsAt Valuation exChoiceOut = [1]
   \<and> idsAt Compat exChoiceOut = [2, 3]
   \<and> allocationOrder exChoiceOut [] [] = [1, 2, 3]
   \<and> distinct (vertexIds exChoiceOut)
   \<and> list_all cInt (idsAt Valuation exChoiceOut @ idsAt Compat exChoiceOut)"
proof -
  have aps: "hoa_noAPs exChoice - int (length (hoa_cntAPs exChoice)) = 0"
    by (simp add: exChoice_def exLoop_def)
  have sts: "map st_id (hoa_states exChoice) = [0]" "hoa_noStates exChoice = 1"
    by (simp_all add: exChoice_def exLoop_def exChoiceState_def)
  have vals: "idsAt Decision exChoiceOut = [0]" "idsAt Valuation exChoiceOut = [1]"
    "idsAt Compat exChoiceOut = [2, 3]" "allocationOrder exChoiceOut [] [] = [1, 2, 3]"
    by (simp_all add: idsAt_def exChoiceOut_def)
  have range: "cInt 1" "cInt (1 + 1 + 2)"
    by (simp_all add: cInt_def)
  have h2: "hoa_noAPs exChoice - int (length (hoa_cntAPs exChoice)) \<le> 30"
    by (simp add: aps)
  have h3: "cInt (hoa_noStates exChoice)"
    by (simp only: sts range)
  have h4: "cInt (hoa_noStates exChoice + int (length (idsAt Valuation exChoiceOut))
      + int (length (idsAt Compat exChoiceOut)))"
    using range(2) by (simp add: sts vals)
  have ids: "distinct (map st_id (hoa_states exChoice))
      \<and> (\<forall>s \<in> set (hoa_states exChoice). 0 \<le> st_id s \<and> st_id s < hoa_noStates exChoice)"
    by (simp add: exChoice_def exLoop_def exChoiceState_def)
  note inst = vertex_ids_allocation [OF exChoice_run h2 h3 h4]
  from inst ids have d: "distinct (vertexIds exChoiceOut)"
    by blast
  from inst have r: "list_all cInt (idsAt Valuation exChoiceOut @ idsAt Compat exChoiceOut)"
    by blast
  show ?thesis
    by (intro conjI exChoice_run aps sts range vals d r)
qed

text \<open>
  Claim C1 holds for the identifier, the priority, the owner and the label of the line of a
  state, and fails for its successors: the program prints \<^verbatim>\<open>firstSucc\<close> and then every
  identifier from \<^verbatim>\<open>firstSucc\<close> on, so the first valuation vertex is listed twice. This is so
  for every state of every run (\<open>stateStep_decision_line\<close>); the first example shows it, with
  the successors 1, 1, 2 of state 0.
\<close>

theorem decision_line_repeats_first_successor:
  "main 0 exLoop = Some (exLoopOut, Exit 0)
   \<and> last exLoopOut = Vertex Decision 0 0 1 [1, 1, 2] ''0''
   \<and> \<not> distinct (v_succs (last exLoopOut))"
  using exLoop_run by (simp add: exLoopOut_def)

lemma stateStep_decision_line:
  assumes "stateStep data mp wr ucnt nv st n out = Some (Inr (n', out'))"
  shows "last out' = Vertex Decision (st_id st) 0 1 (n # [n..n + nv - 1])
      (case st_name st of Some name \<Rightarrow> name | None \<Rightarrow> showInt (st_id st))
    \<and> (1 \<le> nv \<longrightarrow> \<not> distinct (v_succs (last out')))"
  using assms
  by (auto simp: stateStep_def Let_def upto_rec1 [of n "n + nv - 1"]
      split: option.splits sum.splits)

text \<open>
  Claim C4 fails on the code: the number of the header is
  \<^verbatim>\<open>noStates * (numValuations + 1) - 1\<close>, and whenever the automaton has a state (and as many
  states as \<^verbatim>\<open>noStates\<close> says) some vertex gets a larger identifier
  (\<open>header_below_last_id\<close>). In the first example the header says 2 and the last
  compatible-transition vertex is 4.
\<close>

theorem header_below_highest_id:
  "main 0 exLoop = Some (exLoopOut, Exit 0)
   \<and> hd exLoopOut = Header 2
   \<and> 4 \<in> set (vertexIds exLoopOut)
   \<and> (2 :: int) < 4"
  using exLoop_run by (simp add: exLoopOut_def vertexIds_def)

lemma header_below_last_id:
  assumes "main ret data = Some (out, Exit 0)" and "hoa_states data \<noteq> []"
    and "int (length (hoa_states data)) = hoa_noStates data"
  shows "\<exists>h ls i. out = Header h # ls \<and> i \<in> set (vertexIds out) \<and> h < i"
proof -
  from main_success [OF assms(1)] obtain mp wr where
    "constructGame data mp wr = Some (out, Exit 0)"
    by blast
  from constructGame_ids [OF this] obtain nv n' ls where nv: "1 \<le> nv"
    and out: "out = Header (hoa_noStates data * (nv + 1) - 1) # ls"
    and all: "list_all isVertex ls"
    and un: "set (idsAt Valuation ls) \<union> set (idsAt Compat ls) = {hoa_noStates data..<n'}"
    and low: "hoa_noStates data + 2 * int (length (hoa_states data)) * nv \<le> n'"
    by blast
  from assms(2,3) have pos: "1 \<le> hoa_noStates data"
    by (cases "hoa_states data") auto
  with nv have prod: "1 \<le> hoa_noStates data * nv"
    by (metis mult_mono mult_1 zero_le_one order_trans)
  with low assms(3) have lt: "hoa_noStates data * (nv + 1) - 1 < n' - 1"
    by (simp add: algebra_simps)
  with prod have "n' - 1 \<in> {hoa_noStates data..<n'}"
    by (simp add: algebra_simps)
  then have "n' - 1 \<in> set (idsAt Valuation ls) \<union> set (idsAt Compat ls)"
    by (simp only: un)
  then have "n' - 1 \<in> set (map v_id ls)"
    unfolding vertex_ids_by_site [OF all] by blast
  moreover have "vertexIds out = map v_id ls"
    using all by (simp add: out vertexIds_def list_all_iff filter_id_conv)
  ultimately have "n' - 1 \<in> set (vertexIds out)"
    by simp
  with out lt show ?thesis
    by blast
qed

end
